theory Spec2Isabelle
  imports Complex_Main
begin

section \<open>Strings\<close>

text \<open>
  A Python \<open>str\<close> is modelled as a \<open>string\<close>, one \<open>char\<close> per Python character, for
  characters in the 8-bit range. The character tests below are those of Python on that
  range: \<open>str.isspace\<close> (used by \<open>str.strip\<close> and by \<open>\s\<close> in \<open>re\<close>), the decimal
  digits of \<open>\d\<close>, and \<open>str.lower\<close>.
\<close>

definition is_space :: "char \<Rightarrow> bool" where
  "is_space c = (of_char c \<in> {9, 10, 11, 12, 13, 28, 29, 30, 31, 32, 133, 160 :: nat})"

definition is_digit :: "char \<Rightarrow> bool" where
  "is_digit c = (48 \<le> (of_char c :: nat) \<and> (of_char c :: nat) \<le> 57)"

definition lower_char :: "char \<Rightarrow> char" where
  "lower_char c =
     (let n = (of_char c :: nat) in
      if (65 \<le> n \<and> n \<le> 90) \<or> (192 \<le> n \<and> n \<le> 222 \<and> n \<noteq> 215)
      then char_of (n + 32) else c)"

definition lower :: "string \<Rightarrow> string" where
  "lower s = map lower_char s"

definition strip :: "string \<Rightarrow> string" where
  "strip s = rev (dropWhile is_space (rev (dropWhile is_space s)))"

fun starts_with :: "string \<Rightarrow> string \<Rightarrow> bool" where
  "starts_with [] s = True"
| "starts_with (p # ps) [] = False"
| "starts_with (p # ps) (c # cs) = (p = c \<and> starts_with ps cs)"

text \<open>\<open>contains needle s\<close> is Python's \<open>needle in s\<close> on strings.\<close>

fun contains :: "string \<Rightarrow> string \<Rightarrow> bool" where
  "contains needle [] = (needle = [])"
| "contains needle (c # cs) = (starts_with needle (c # cs) \<or> contains needle cs)"

text \<open>\<open>sep.join(parts)\<close>.\<close>

fun join :: "string \<Rightarrow> string list \<Rightarrow> string" where
  "join sep [] = []"
| "join sep [p] = p"
| "join sep (p # q # ps) = p @ sep @ join sep (q # ps)"

text \<open>
  The whitespace-separated words of a string: the list Beautiful Soup keeps for a
  multi-valued attribute such as \<open>class\<close>.
\<close>

fun split_ws_acc :: "string \<Rightarrow> string \<Rightarrow> string list" where
  "split_ws_acc cur [] = (if cur = [] then [] else [rev cur])"
| "split_ws_acc cur (c # cs) =
     (if is_space c then (if cur = [] then split_ws_acc [] cs else rev cur # split_ws_acc [] cs)
      else split_ws_acc (c # cur) cs)"

definition split_ws :: "string \<Rightarrow> string list" where
  "split_ws s = split_ws_acc [] s"

text \<open>Python truthiness of an optional string: \<open>None\<close> and \<open>""\<close> are false.\<close>

fun truthy :: "string option \<Rightarrow> bool" where
  "truthy None = False"
| "truthy (Some s) = (s \<noteq> [])"

text \<open>\<open>a or b\<close> on optional strings.\<close>

definition py_or :: "string option \<Rightarrow> string option \<Rightarrow> string option" where
  "py_or a b = (if truthy a then a else b)"

section \<open>The parsed document\<close>

text \<open>
  The document abstraction the extractors consume (Beautiful Soup over lxml): an element
  has a name, a dictionary of attributes and children; a text node carries a string.
  Attribute values are kept as written in the markup. Beautiful Soup presents the
  attributes of its multi-valued table (\<open>class\<close>, \<open>accesskey\<close>, \<open>dropzone\<close> on every
  element, \<open>rel\<close>/\<open>rev\<close> on links, ...) as lists of words and every other attribute as a
  string; \<open>multi_valued\<close> is that table.
\<close>

datatype node = Tag string "(string \<times> string) list" "node list" | NavigableString string

fun attrs :: "node \<Rightarrow> (string \<times> string) list" where
  "attrs (Tag n as cs) = as"
| "attrs (NavigableString s) = []"

fun tag_name :: "node \<Rightarrow> string" where
  "tag_name (Tag n as cs) = n"
| "tag_name (NavigableString s) = []"

fun is_tag :: "node \<Rightarrow> bool" where
  "is_tag (Tag n as cs) = True"
| "is_tag (NavigableString s) = False"

definition multi_valued :: "string \<Rightarrow> string \<Rightarrow> bool" where
  "multi_valued tg a =
     (a \<in> {''class'', ''accesskey'', ''dropzone''}
      \<or> (tg \<in> {''a'', ''link''} \<and> a \<in> {''rel'', ''rev''})
      \<or> (tg \<in> {''td'', ''th''} \<and> a = ''headers'')
      \<or> (tg = ''form'' \<and> a = ''accept-charset'')
      \<or> (tg = ''object'' \<and> a = ''archive'')
      \<or> (tg = ''area'' \<and> a = ''rel'')
      \<or> (tg = ''icon'' \<and> a = ''sizes'')
      \<or> (tg = ''iframe'' \<and> a = ''sandbox'')
      \<or> (tg = ''output'' \<and> a = ''for''))"

text \<open>\<open>el.get(name)\<close> for a single-valued attribute.\<close>

definition get_attr :: "node \<Rightarrow> string \<Rightarrow> string option" where
  "get_attr el a = map_of (attrs el) a"

text \<open>\<open>el.get("class", [])\<close>.\<close>

definition get_classes :: "node \<Rightarrow> string list" where
  "get_classes el = (case get_attr el ''class'' of None \<Rightarrow> [] | Some v \<Rightarrow> split_ws v)"

text \<open>
  The descendants of a node in document order (pre-order), the node itself excluded:
  what \<open>find_all\<close>, \<open>find\<close>, \<open>select\<close> and \<open>select_one\<close> search.
\<close>

fun descendants :: "node \<Rightarrow> node list"
  and descendants_list :: "node list \<Rightarrow> node list" where
  "descendants (Tag n as cs) = descendants_list cs"
| "descendants (NavigableString s) = []"
| "descendants_list [] = []"
| "descendants_list (c # cs) = c # descendants c @ descendants_list cs"

definition find_all :: "(node \<Rightarrow> bool) \<Rightarrow> node \<Rightarrow> node list" where
  "find_all p el = filter (\<lambda>d. is_tag d \<and> p d) (descendants el)"

definition find_first :: "(node \<Rightarrow> bool) \<Rightarrow> node \<Rightarrow> node option" where
  "find_first p el = (case find_all p el of [] \<Rightarrow> None | d # ds \<Rightarrow> Some d)"

text \<open>
  \<open>get_text(sep, strip=True)\<close>: the text nodes below the element (or the text node
  itself) in document order, each stripped, the empty ones dropped, joined by \<open>sep\<close>.
\<close>

fun strings_of :: "node \<Rightarrow> string list"
  and strings_of_list :: "node list \<Rightarrow> string list" where
  "strings_of (NavigableString s) = [s]"
| "strings_of (Tag n as cs) = strings_of_list cs"
| "strings_of_list [] = []"
| "strings_of_list (c # cs) = strings_of c @ strings_of_list cs"

definition get_text :: "string \<Rightarrow> node \<Rightarrow> string" where
  "get_text sep el = join sep (filter (\<lambda>s. s \<noteq> []) (map strip (strings_of el)))"

subsection \<open>CSS selectors\<close>

text \<open>
  The selectors of the source are all of one shape: an optional element name and at most
  one attribute test: presence (\<open>[a]\<close>), equality (\<open>[a="v"]\<close>) or a class (\<open>.c\<close>).
  A multi-valued attribute is compared through its words joined by single spaces.
\<close>

datatype attr_test = Any_Attrs | Has_Attr string | Attr_Eq string string | Has_Class string

datatype selector = Selector "string option" attr_test

definition attr_text :: "node \<Rightarrow> string \<Rightarrow> string option" where
  "attr_text el a =
     (case get_attr el a of
        None \<Rightarrow> None
      | Some v \<Rightarrow> Some (if multi_valued (tag_name el) a then join '' '' (split_ws v) else v))"

fun attr_test_ok :: "attr_test \<Rightarrow> node \<Rightarrow> bool" where
  "attr_test_ok Any_Attrs el = True"
| "attr_test_ok (Has_Attr a) el = (get_attr el a \<noteq> None)"
| "attr_test_ok (Attr_Eq a v) el = (attr_text el a = Some v)"
| "attr_test_ok (Has_Class c) el = (c \<in> set (get_classes el))"

fun selector_ok :: "selector \<Rightarrow> node \<Rightarrow> bool" where
  "selector_ok (Selector None t) el = attr_test_ok t el"
| "selector_ok (Selector (Some n) t) el = (tag_name el = n \<and> attr_test_ok t el)"

definition select :: "selector \<Rightarrow> node \<Rightarrow> node list" where
  "select sel el = find_all (selector_ok sel) el"

definition select_one :: "selector \<Rightarrow> node \<Rightarrow> node option" where
  "select_one sel el = find_first (selector_ok sel) el"

section \<open>Container Locator\<close>

text \<open>
  \<open>ReviewParser._find_review_containers\<close>: the selectors in their fixed order; the first
  whose result is not empty gives the containers.
\<close>

definition selectors :: "selector list" where
  "selectors =
     [Selector None (Has_Attr ''data-review-id''),
      Selector (Some ''div'') (Attr_Eq ''data-testid'' ''review''),
      Selector (Some ''div'') (Attr_Eq ''itemprop'' ''review''),
      Selector (Some ''div'') (Has_Class ''review''),
      Selector (Some ''article'') Any_Attrs]"

fun first_matching :: "selector list \<Rightarrow> node \<Rightarrow> node list" where
  "first_matching [] soup = []"
| "first_matching (sel # sels) soup =
     (let elements = select sel soup in
      if elements \<noteq> [] then elements else first_matching sels soup)"

definition find_review_containers :: "node \<Rightarrow> node list" where
  "find_review_containers soup = first_matching selectors soup"

section \<open>Regular expressions\<close>

text \<open>
  The patterns of the source use literal characters, the classes \<open>\d\<close>, \<open>\s\<close>, \<open>.\<close> and
  a bracket set, repetition of a single class (\<open>+\<close>, \<open>*\<close>, \<open>*?\<close>), one optional
  non-capturing group and one capturing group. \<open>rmatch\<close> is the backtracking matcher of
  Python's \<open>re\<close> on that fragment: alternatives are tried in priority order (greedy: the
  longest repetition first; lazy: the shortest first; an optional part first taken, then
  left out) and the first that lets the rest of the pattern match wins. The rest of the
  pattern is the continuation. A match yields the text of group 1 and the input left
  after the match.
\<close>

datatype cclass = Any_Char | Digit | Space | Lit char | One_Of string

record re_flags =
  ignorecase :: bool
  dotall :: bool

fun in_class :: "re_flags \<Rightarrow> cclass \<Rightarrow> char \<Rightarrow> bool" where
  "in_class f Any_Char c = (dotall f \<or> c \<noteq> CHR 0x0A)"
| "in_class f Digit c = is_digit c"
| "in_class f Space c = is_space c"
| "in_class f (Lit l) c = (if ignorecase f then lower_char c = lower_char l else c = l)"
| "in_class f (One_Of ls) c = (c \<in> set ls)"

datatype atom = Chr cclass | Rep cclass nat bool | Opt "atom list" | Group_Open | Group_Close

definition lits :: "string \<Rightarrow> atom list" where
  "lits s = map (\<lambda>c. Chr (Lit c)) s"

fun rep_greedy :: "(char \<Rightarrow> bool) \<Rightarrow> nat \<Rightarrow> (string \<Rightarrow> 'a option) \<Rightarrow> string \<Rightarrow> 'a option" where
  "rep_greedy p mn k [] = (if mn = 0 then k [] else None)"
| "rep_greedy p mn k (c # cs) =
     (if p c
      then (case rep_greedy p (mn - 1) k cs of
              Some r \<Rightarrow> Some r
            | None \<Rightarrow> if mn = 0 then k (c # cs) else None)
      else if mn = 0 then k (c # cs) else None)"

fun rep_lazy :: "(char \<Rightarrow> bool) \<Rightarrow> nat \<Rightarrow> (string \<Rightarrow> 'a option) \<Rightarrow> string \<Rightarrow> 'a option" where
  "rep_lazy p mn k [] = (if mn = 0 then k [] else None)"
| "rep_lazy p mn k (c # cs) =
     (if mn = 0
      then (case k (c # cs) of
              Some r \<Rightarrow> Some r
            | None \<Rightarrow> if p c then rep_lazy p 0 k cs else None)
      else if p c then rep_lazy p (mn - 1) k cs else None)"

text \<open>
  \<open>rmatch f pat s gs cap\<close>: match \<open>pat\<close> at the head of \<open>s\<close>; \<open>gs\<close> is the input where
  group 1 opened and \<open>cap\<close> the text group 1 captured.
\<close>

function rmatch :: "re_flags \<Rightarrow> atom list \<Rightarrow> string \<Rightarrow> string \<Rightarrow> string \<Rightarrow> (string \<times> string) option" where
  "rmatch f [] s gs cap = Some (cap, s)"
| "rmatch f (Chr c # r) s gs cap =
     (case s of [] \<Rightarrow> None | x # xs \<Rightarrow> if in_class f c x then rmatch f r xs gs cap else None)"
| "rmatch f (Rep c mn greedy # r) s gs cap =
     (if greedy then rep_greedy (in_class f c) mn (\<lambda>s'. rmatch f r s' gs cap) s
      else rep_lazy (in_class f c) mn (\<lambda>s'. rmatch f r s' gs cap) s)"
| "rmatch f (Opt as # r) s gs cap =
     (case rmatch f (as @ r) s gs cap of Some m \<Rightarrow> Some m | None \<Rightarrow> rmatch f r s gs cap)"
| "rmatch f (Group_Open # r) s gs cap = rmatch f r s s cap"
| "rmatch f (Group_Close # r) s gs cap = rmatch f r s gs (take (length gs - length s) gs)"
  by pat_completeness auto
termination
  by (relation "measure (\<lambda>(f, p, s, gs, cap). size_list size p)") auto

text \<open>\<open>re.search\<close>: the match at the leftmost position where the pattern matches.\<close>

fun re_search :: "re_flags \<Rightarrow> atom list \<Rightarrow> string \<Rightarrow> (string \<times> string) option" where
  "re_search f p [] = rmatch f p [] [] []"
| "re_search f p (c # cs) =
     (case rmatch f p (c # cs) [] [] of Some m \<Rightarrow> Some m | None \<Rightarrow> re_search f p cs)"

definition no_flags :: re_flags where
  "no_flags = \<lparr>ignorecase = False, dotall = False\<rparr>"

section \<open>Numbers\<close>

text \<open>
  \<open>float(s)\<close> on a string: surrounding whitespace is stripped, which for \<open>float\<close> and
  \<open>int\<close> is the whitespace of ASCII (tab to carriage return, and the space) and the two
  spaces beyond ASCII, not the separators \<open>0x1C\<close> to \<open>0x1F\<close> that \<open>str.strip\<close> also
  removes; then an optional sign and
  \<open>inf\<close>, \<open>infinity\<close> or \<open>nan\<close> in any case, or a decimal number with optional
  fraction and exponent, where single underscores may separate digits. Anything else is
  a \<open>ValueError\<close>. A result that is not \<open>inf\<close> or \<open>nan\<close> is kept as the exact decimal
  value written: \<open>Finite q\<close> stands for the double Python rounds \<open>q\<close> to (an infinity when
  \<open>q\<close> lies beyond the doubles). Rounding is monotone and leaves \<open>0\<close>, \<open>4.5\<close>, \<open>5\<close> and
  \<open>10\<close> as they are, so a value that is at least \<open>0\<close> rounds to a double that is at least
  \<open>0\<close>. The sign of a zero is not kept.
\<close>

definition is_number_space :: "char \<Rightarrow> bool" where
  "is_number_space c = (of_char c \<in> {9, 10, 11, 12, 13, 32, 133, 160 :: nat})"

definition number_strip :: "string \<Rightarrow> string" where
  "number_strip s = rev (dropWhile is_number_space (rev (dropWhile is_number_space s)))"

datatype exn = ValueError | TypeError | OverflowError | LangDetectException | Other_Exception string

datatype pyfloat = Finite rat | Infinite bool | NaN

definition digit_val :: "char \<Rightarrow> nat" where
  "digit_val c = of_char c - 48"

definition digits_val :: "string \<Rightarrow> nat" where
  "digits_val ds = foldl (\<lambda>acc c. 10 * acc + digit_val c) 0 ds"

fun digitpart_more :: "string \<Rightarrow> string \<times> string" where
  "digitpart_more [] = ([], [])"
| "digitpart_more [c] = (if is_digit c then ([c], []) else ([], [c]))"
| "digitpart_more (c # d # cs) =
     (if is_digit c then (case digitpart_more (d # cs) of (ds, r) \<Rightarrow> (c # ds, r))
      else if c = CHR ''_'' \<and> is_digit d then (case digitpart_more cs of (ds, r) \<Rightarrow> (d # ds, r))
      else ([], c # d # cs))"

definition digitpart :: "string \<Rightarrow> (string \<times> string) option" where
  "digitpart s =
     (case s of
        [] \<Rightarrow> None
      | c # cs \<Rightarrow> if is_digit c then (case digitpart_more cs of (ds, r) \<Rightarrow> Some (c # ds, r))
                  else None)"

text \<open>An optional sign: whether it is a minus, and the rest.\<close>

fun sign_of :: "string \<Rightarrow> bool \<times> string" where
  "sign_of [] = (False, [])"
| "sign_of (c # cs) =
     (if c = CHR ''-'' then (True, cs) else if c = CHR ''+'' then (False, cs) else (False, c # cs))"

text \<open>\<open>number\<close>: integer digits, fraction digits and the rest.\<close>

definition number_part :: "string \<Rightarrow> (string \<times> string \<times> string) option" where
  "number_part s =
     (case digitpart s of
        Some (ip, r) \<Rightarrow>
          (case r of
             [] \<Rightarrow> Some (ip, [], [])
           | c # r' \<Rightarrow>
               if c = CHR ''.''
               then (case digitpart r' of Some (fp, r'') \<Rightarrow> Some (ip, fp, r'') | None \<Rightarrow> Some (ip, [], r'))
               else Some (ip, [], r))
      | None \<Rightarrow>
          (case s of
             [] \<Rightarrow> None
           | c # r' \<Rightarrow>
               if c = CHR ''.''
               then (case digitpart r' of Some (fp, r'') \<Rightarrow> Some ([], fp, r'') | None \<Rightarrow> None)
               else None))"

text \<open>\<open>exponent\<close> up to the end of the string: the power of ten, \<open>0\<close> when there is none.\<close>

definition exponent_part :: "string \<Rightarrow> int option" where
  "exponent_part s =
     (case s of
        [] \<Rightarrow> Some 0
      | c # r \<Rightarrow>
          if c = CHR ''e'' \<or> c = CHR ''E''
          then (case sign_of r of
                  (neg, r') \<Rightarrow>
                    (case digitpart r' of
                       Some (ds, []) \<Rightarrow> Some (if neg then - int (digits_val ds) else int (digits_val ds))
                     | Some (ds, x # xs) \<Rightarrow> None
                     | None \<Rightarrow> None))
          else None)"

definition scale10 :: "rat \<Rightarrow> int \<Rightarrow> rat" where
  "scale10 q e = (if 0 \<le> e then q * 10 ^ nat e else q / 10 ^ nat (- e))"

definition py_float :: "string \<Rightarrow> exn + pyfloat" where
  "py_float s =
     (case sign_of (number_strip s) of
        (neg, body) \<Rightarrow>
          if lower body = ''inf'' \<or> lower body = ''infinity'' then Inr (Infinite (\<not> neg))
          else if lower body = ''nan'' then Inr NaN
          else (case number_part body of
                  None \<Rightarrow> Inl ValueError
                | Some (ip, fp, r) \<Rightarrow>
                    (case exponent_part r of
                       None \<Rightarrow> Inl ValueError
                     | Some e \<Rightarrow>
                         (let q = scale10 (of_nat (digits_val (ip @ fp)) / 10 ^ length fp) e
                          in Inr (Finite (if neg then - q else q))))))"

text \<open>\<open>int(s)\<close> on a string, base ten.\<close>

definition py_int :: "string \<Rightarrow> exn + int" where
  "py_int s =
     (case sign_of (number_strip s) of
        (neg, body) \<Rightarrow>
          (case digitpart body of
             Some (ds, []) \<Rightarrow> Inr (if neg then - int (digits_val ds) else int (digits_val ds))
           | Some (ds, x # xs) \<Rightarrow> Inl ValueError
           | None \<Rightarrow> Inl ValueError))"

section \<open>Rating\<close>

text \<open>
  \<open>ReviewParser._extract_rating\<close>. The three heuristics, in the order of the source:
  the \<open>content\<close> of the first element with \<open>itemprop="ratingValue"\<close>; the first
  \<open>aria-label\<close> that matches \<open>(\d+(?:\.\d+)?)\s+out\s+of\s+5\<close> with a group that
  \<open>float\<close> accepts; the first match of \<open>(\d+(?:\.\d+)?)\s*/\s*5\<close> in the text.
\<close>

definition number_group :: "atom list" where
  "number_group =
     [Group_Open, Rep Digit 1 True, Opt [Chr (Lit CHR ''.''), Rep Digit 1 True], Group_Close]"

definition out_of_5_pattern :: "atom list" where
  "out_of_5_pattern =
     number_group @ [Rep Space 1 True] @ lits ''out'' @ [Rep Space 1 True] @ lits ''of''
       @ [Rep Space 1 True] @ lits ''5''"

definition slash_5_pattern :: "atom list" where
  "slash_5_pattern = number_group @ [Rep Space 0 True] @ lits ''/'' @ [Rep Space 0 True] @ lits ''5''"

definition rating_from_attribute :: "node \<Rightarrow> pyfloat option" where
  "rating_from_attribute container =
     (case find_first (\<lambda>el. get_attr el ''itemprop'' = Some ''ratingValue'') container of
        None \<Rightarrow> None
      | Some rating_element \<Rightarrow>
          (case get_attr rating_element ''content'' of
             None \<Rightarrow> None
           | Some v \<Rightarrow>
               if v = [] then None
               else (case py_float v of Inr x \<Rightarrow> Some x | Inl e \<Rightarrow> None)))"

fun rating_from_labels :: "string list \<Rightarrow> pyfloat option" where
  "rating_from_labels [] = None"
| "rating_from_labels (label # labels) =
     (case re_search no_flags out_of_5_pattern label of
        None \<Rightarrow> rating_from_labels labels
      | Some (g, rest) \<Rightarrow>
          (case py_float g of Inr x \<Rightarrow> Some x | Inl e \<Rightarrow> rating_from_labels labels))"

definition aria_labels :: "node \<Rightarrow> string list" where
  "aria_labels container =
     map (\<lambda>el. the (get_attr el ''aria-label''))
       (find_all (\<lambda>el. get_attr el ''aria-label'' \<noteq> None) container)"

definition rating_from_text :: "node \<Rightarrow> pyfloat option" where
  "rating_from_text container =
     (case re_search no_flags slash_5_pattern (get_text '' '' container) of
        None \<Rightarrow> None
      | Some (g, rest) \<Rightarrow> (case py_float g of Inr x \<Rightarrow> Some x | Inl e \<Rightarrow> None))"

definition extract_rating :: "node \<Rightarrow> pyfloat option" where
  "extract_rating container =
     (case rating_from_attribute container of
        Some x \<Rightarrow> Some x
      | None \<Rightarrow>
          (case rating_from_labels (aria_labels container) of
             Some x \<Rightarrow> Some x
           | None \<Rightarrow> rating_from_text container))"

section \<open>Dates\<close>

text \<open>
  A \<open>datetime\<close> value as the date parser returns it; \<open>tzinfo\<close> is the offset from UTC in
  seconds when the value is aware. \<open>valid_datetime\<close> are the ranges every Python
  \<open>datetime\<close> has.
\<close>

record datetime =
  year :: nat
  month :: nat
  day :: nat
  hour :: nat
  minute :: nat
  second :: nat
  microsecond :: nat
  tzinfo :: "int option"

definition valid_datetime :: "datetime \<Rightarrow> bool" where
  "valid_datetime dt =
     (1 \<le> year dt \<and> year dt \<le> 9999 \<and> 1 \<le> month dt \<and> month dt \<le> 12
      \<and> 1 \<le> day dt \<and> day dt \<le> 31 \<and> hour dt < 24 \<and> minute dt < 60 \<and> second dt < 60
      \<and> microsecond dt < 1000000)"

definition digit_char :: "nat \<Rightarrow> char" where
  "digit_char d = char_of (48 + d)"

fun decimal :: "nat \<Rightarrow> string" where
  "decimal n = (if n < 10 then [digit_char n] else decimal (n div 10) @ [digit_char (n mod 10)])"

declare decimal.simps [simp del]

text \<open>\<open>"%0wd" % n\<close>: the decimal digits of \<open>n\<close>, zero-padded to at least \<open>w\<close>.\<close>

definition zfill :: "nat \<Rightarrow> nat \<Rightarrow> string" where
  "zfill w n = replicate (w - length (decimal n)) CHR ''0'' @ decimal n"

definition utcoffset_text :: "int \<Rightarrow> string" where
  "utcoffset_text off =
     (let a = nat \<bar>off\<bar> in
      (if off < 0 then ''-'' else ''+'') @ zfill 2 (a div 3600) @ '':'' @ zfill 2 ((a mod 3600) div 60)
        @ (if a mod 60 = 0 then [] else '':'' @ zfill 2 (a mod 60)))"

text \<open>\<open>datetime.isoformat()\<close> with its default \<open>timespec\<close>.\<close>

definition isoformat :: "datetime \<Rightarrow> string" where
  "isoformat dt =
     zfill 4 (year dt) @ ''-'' @ zfill 2 (month dt) @ ''-'' @ zfill 2 (day dt) @ ''T''
       @ zfill 2 (hour dt) @ '':'' @ zfill 2 (minute dt) @ '':'' @ zfill 2 (second dt)
       @ (if microsecond dt = 0 then [] else ''.'' @ zfill 6 (microsecond dt))
       @ (case tzinfo dt of None \<Rightarrow> [] | Some off \<Rightarrow> utcoffset_text off)"

definition month_names :: "string list" where
  "month_names =
     [''January'', ''February'', ''March'', ''April'', ''May'', ''June'', ''July'', ''August'',
      ''September'', ''October'', ''November'', ''December'']"

text \<open>
  \<open>dt.strftime("%B %Y")\<close> in the C locale: the English name of the month and the year
  in decimal, which the C library does not pad (\<open>January 999\<close>).
\<close>

definition strftime_B_Y :: "datetime \<Rightarrow> string" where
  "strftime_B_Y dt = month_names ! (month dt - 1) @ '' '' @ decimal (year dt)"

text \<open>
  The collaborators of the core: \<open>dateutil.parser.parse\<close> and \<open>langdetect.detect\<close>. Each
  returns its value or raises.
\<close>

record env =
  dateparser_parse :: "string \<Rightarrow> exn + datetime"
  detect :: "string \<Rightarrow> exn + string"

text \<open>
  The string values of an element's attributes, in order: \<open>isinstance(v, str)\<close> leaves
  the multi-valued attributes out.
\<close>

definition str_attr_values :: "node \<Rightarrow> string list" where
  "str_attr_values el = map snd (filter (\<lambda>(k, v). \<not> multi_valued (tag_name el) k) (attrs el))"

text \<open>The date text of \<open>_extract_dates\<close>, before the test \<open>if not date_text\<close>.\<close>

definition date_text_of :: "node \<Rightarrow> string option" where
  "date_text_of container =
     (let date_text =
            (case find_first (\<lambda>el. tag_name el = ''time'') container of
               None \<Rightarrow> None
             | Some time_element \<Rightarrow>
                 py_or (get_attr time_element ''datetime'') (Some (get_text [] time_element)))
      in if \<not> truthy date_text
         then (case find_first
                      (\<lambda>sp. tag_name sp = ''span''
                         \<and> contains ''date'' (lower (join '' '' (str_attr_values sp))))
                      container of
                 None \<Rightarrow> date_text
               | Some sp \<Rightarrow> Some (get_text [] sp))
         else date_text)"

text \<open>\<open>ReviewParser._extract_dates\<close>: \<open>(created_at, localized_date)\<close>, or the exception
  of the date parser that the \<open>except\<close> clause does not name.\<close>

definition extract_dates :: "env \<Rightarrow> node \<Rightarrow> exn + (string option \<times> string option)" where
  "extract_dates e container =
     (case date_text_of container of
        None \<Rightarrow> Inr (None, None)
      | Some date_text \<Rightarrow>
          if date_text = [] then Inr (None, None)
          else (case dateparser_parse e date_text of
                  Inl exc \<Rightarrow>
                    if exc \<in> {ValueError, TypeError, OverflowError} then Inr (None, Some date_text)
                    else Inl exc
                | Inr dt \<Rightarrow>
                    Inr (Some (isoformat (dt\<lparr>tzinfo := None\<rparr>) @ ''Z''), Some (strftime_B_Y dt))))"

section \<open>Comment, review id, host response, photos\<close>

text \<open>\<open>ReviewParser._extract_comment\<close>.\<close>

definition comment_candidates :: "selector list" where
  "comment_candidates =
     [Selector (Some ''div'') (Attr_Eq ''data-testid'' ''review-comments''),
      Selector (Some ''q'') Any_Attrs,
      Selector (Some ''blockquote'') Any_Attrs,
      Selector (Some ''p'') Any_Attrs]"

fun first_selected_text :: "string \<Rightarrow> selector list \<Rightarrow> node \<Rightarrow> string option" where
  "first_selected_text sep [] container = None"
| "first_selected_text sep (sel # sels) container =
     (case select_one sel container of
        None \<Rightarrow> first_selected_text sep sels container
      | Some element \<Rightarrow>
          (let t = get_text sep element
           in if t \<noteq> [] then Some t else first_selected_text sep sels container))"

fun longest :: "string \<Rightarrow> string list \<Rightarrow> string" where
  "longest longest_text [] = longest_text"
| "longest longest_text (t # ts) =
     (if length t > length longest_text then longest t ts else longest longest_text ts)"

definition extract_comment :: "node \<Rightarrow> string option" where
  "extract_comment container =
     (case first_selected_text [] comment_candidates container of
        Some t \<Rightarrow> Some t
      | None \<Rightarrow>
          (let longest_text =
                 longest [] (map (get_text []) (find_all (\<lambda>el. tag_name el = ''span'') container))
           in if longest_text \<noteq> [] then Some longest_text else None))"

text \<open>\<open>ReviewParser._extract_review_id_from_attributes\<close>, pattern \<open>review[-_]?(\d+)\<close>.\<close>

definition review_id_pattern :: "atom list" where
  "review_id_pattern =
     lits ''review'' @ [Opt [Chr (One_Of ''-_'')], Group_Open, Rep Digit 1 True, Group_Close]"

fun first_group :: "atom list \<Rightarrow> string list \<Rightarrow> string option" where
  "first_group pat [] = None"
| "first_group pat (v # vs) =
     (case re_search no_flags pat v of Some (g, rest) \<Rightarrow> Some g | None \<Rightarrow> first_group pat vs)"

definition extract_review_id_from_attributes :: "node \<Rightarrow> string option" where
  "extract_review_id_from_attributes container =
     first_group review_id_pattern (str_attr_values container)"

text \<open>
  \<open>ReviewParser._extract_host_response\<close>. The pattern is
  \<open>Response from.*?:\s*(.+)\<close> under \<open>IGNORECASE | DOTALL\<close>. \<open>ellipsis\<close> stands for the
  one character U+2026, written here by its UTF-8 bytes.
\<close>

definition response_candidates :: "selector list" where
  "response_candidates =
     [Selector (Some ''div'') (Attr_Eq ''data-testid'' ''review-detail-host-response''),
      Selector (Some ''section'') (Attr_Eq ''data-testid'' ''host-response'')]"

definition response_pattern :: "atom list" where
  "response_pattern =
     lits ''Response from''
       @ [Rep Any_Char 0 False, Chr (Lit CHR '':''), Rep Space 0 True,
          Group_Open, Rep Any_Char 1 True, Group_Close]"

definition response_flags :: re_flags where
  "response_flags = \<lparr>ignorecase = True, dotall = True\<rparr>"

definition ellipsis :: string where
  "ellipsis = [CHR 0xE2, CHR 0x80, CHR 0xA6]"

text \<open>\<open>s.rsplit(" ", 1)[0]\<close>: the part before the last space, all of \<open>s\<close> without one.\<close>

definition rsplit_space_head :: "string \<Rightarrow> string" where
  "rsplit_space_head s =
     (if CHR '' '' \<in> set s then rev (tl (dropWhile (\<lambda>c. c \<noteq> CHR '' '') (rev s))) else s)"

definition limit_response :: "string \<Rightarrow> string" where
  "limit_response response_text =
     (if length response_text > 2000
      then rsplit_space_head (take 2000 response_text) @ ellipsis
      else response_text)"

definition response_from_pattern :: "node \<Rightarrow> string option" where
  "response_from_pattern container =
     (case re_search response_flags response_pattern (get_text [CHR 0x0A] container) of
        None \<Rightarrow> None
      | Some (g, rest) \<Rightarrow> Some (limit_response (strip g)))"

definition extract_host_response :: "node \<Rightarrow> string option" where
  "extract_host_response container =
     (case first_selected_text '' '' response_candidates container of
        Some t \<Rightarrow> Some t
      | None \<Rightarrow> response_from_pattern container)"

text \<open>
  \<open>ReviewParser._extract_review_photos\<close>. \<open>add_photo\<close> is the loop body
  \<open>if url and url not in photos: photos.append(url)\<close>.
\<close>

definition add_photo :: "string list \<Rightarrow> string option \<Rightarrow> string list" where
  "add_photo photos url =
     (case url of
        None \<Rightarrow> photos
      | Some u \<Rightarrow> if u \<noteq> [] \<and> u \<notin> set photos then photos @ [u] else photos)"

definition photo_selectors :: "selector list" where
  "photo_selectors =
     [Selector (Some ''img'') (Attr_Eq ''data-testid'' ''review-photo''),
      Selector (Some ''img'') (Has_Attr ''data-original-uri'')]"

text \<open>The urls the two loops visit, in the order they visit them.\<close>

definition marked_photo_urls :: "node \<Rightarrow> string option list" where
  "marked_photo_urls container =
     concat (map (\<lambda>sel. map (\<lambda>img. py_or (get_attr img ''data-original-uri'') (get_attr img ''src''))
                           (select sel container))
                 photo_selectors)"

definition photo_divs :: "node \<Rightarrow> node list" where
  "photo_divs container =
     filter (\<lambda>d. let classes = join '' '' (get_classes d)
                 in contains ''photo'' (lower classes) \<or> contains ''image'' (lower classes))
       (find_all (\<lambda>el. tag_name el = ''div'') container)"

definition fallback_photo_urls :: "node \<Rightarrow> string option list" where
  "fallback_photo_urls container =
     concat (map (\<lambda>d. map (\<lambda>img. get_attr img ''src'') (find_all (\<lambda>el. tag_name el = ''img'') d))
                 (photo_divs container))"

definition extract_review_photos :: "node \<Rightarrow> string list" where
  "extract_review_photos container =
     (let photos = foldl add_photo [] (marked_photo_urls container)
      in if photos = [] then foldl add_photo photos (fallback_photo_urls container) else photos)"

section \<open>Reviewer and host\<close>

text \<open>
  The dictionaries the two extractors build: the host's has the keys of \<open>person\<close>, the
  reviewer's has \<open>location\<close> besides.
\<close>

record person =
  id' :: "string option"
  firstName :: "string option"
  profilePath :: "string option"
  pictureUrl :: "string option"
  isSuperhost :: bool

record reviewer_person = person +
  location :: "string option"

definition user_id_pattern :: "atom list" where
  "user_id_pattern = lits ''/users/show/'' @ [Group_Open, Rep Digit 1 True, Group_Close]"

text \<open>\<open>_extract_user_id_from_href\<close>, the same in both classes.\<close>

definition extract_user_id_from_href :: "string \<Rightarrow> string option" where
  "extract_user_id_from_href href = first_group user_id_pattern [href]"

text \<open>\<open>find_all("a", href=True)\<close> restricted to the links whose target has \<open>/users/show/\<close>.\<close>

definition profile_links :: "node \<Rightarrow> node list" where
  "profile_links el =
     filter (\<lambda>link. contains ''/users/show/'' (the (get_attr link ''href'')))
       (find_all (\<lambda>a. tag_name a = ''a'' \<and> get_attr a ''href'' \<noteq> None) el)"

subsection \<open>ReviewerParser\<close>

definition find_profile_link :: "node \<Rightarrow> node option" where
  "find_profile_link container =
     (case profile_links container of [] \<Rightarrow> None | link # links \<Rightarrow> Some link)"

fun first_truthy_src :: "node list \<Rightarrow> string option" where
  "first_truthy_src [] = None"
| "first_truthy_src (img # imgs) =
     (if truthy (get_attr img ''src'') then get_attr img ''src'' else first_truthy_src imgs)"

text \<open>
  The second loop of \<open>_find_profile_picture\<close>: an image counts when \<open>width\<close> and
  \<open>height\<close> are both non-empty, both convert with \<open>int\<close> and the larger is at most 80.
\<close>

definition small_image :: "node \<Rightarrow> bool" where
  "small_image img =
     (truthy (get_attr img ''width'') \<and> truthy (get_attr img ''height'')
      \<and> (case py_int (the (get_attr img ''width'')) of
            Inl exc \<Rightarrow> False
          | Inr w \<Rightarrow>
              (case py_int (the (get_attr img ''height'')) of
                 Inl exc \<Rightarrow> False
               | Inr h \<Rightarrow> max w h \<le> 80)))"

definition find_profile_picture :: "node \<Rightarrow> string option" where
  "find_profile_picture container =
     (let imgs = find_all (\<lambda>el. tag_name el = ''img'') container;
          labelled =
            filter (\<lambda>img. let alt = lower (case get_attr img ''alt'' of None \<Rightarrow> [] | Some a \<Rightarrow> a)
                          in contains ''profile'' alt \<or> contains ''avatar'' alt)
              imgs
      in case first_truthy_src labelled of
           Some src \<Rightarrow> Some src
         | None \<Rightarrow> first_truthy_src (filter small_image imgs))"

text \<open>\<open>sorted(text_candidates, key=len)[0]\<close>: the first of the shortest candidates.\<close>

fun shortest :: "string \<Rightarrow> string list \<Rightarrow> string" where
  "shortest best [] = best"
| "shortest best (t # ts) = (if length t < length best then shortest t ts else shortest best ts)"

fun location_loop :: "string list \<Rightarrow> string list \<Rightarrow> string option" where
  "location_loop text_candidates [] =
     (case text_candidates of [] \<Rightarrow> None | t # ts \<Rightarrow> Some (shortest t ts))"
| "location_loop text_candidates (t # ts) =
     (if t = [] then location_loop text_candidates ts
      else if contains ''years on airbnb'' (lower t) \<or> contains ''year on airbnb'' (lower t)
      then Some t
      else if contains ''from '' (lower t) \<and> length t < 80
      then location_loop (text_candidates @ [t]) ts
      else location_loop text_candidates ts)"

definition find_reviewer_location :: "node \<Rightarrow> string option" where
  "find_reviewer_location container =
     location_loop []
       (map (get_text '' '')
          (find_all (\<lambda>el. tag_name el = ''span'' \<or> tag_name el = ''div'') container))"

text \<open>\<open>_detect_superhost_flag\<close> of \<open>ReviewerParser\<close>.\<close>

definition reviewer_detect_superhost_flag :: "node \<Rightarrow> bool" where
  "reviewer_detect_superhost_flag container =
     (let t = lower (get_text '' '' container)
      in if contains ''superhost'' t then True else False)"

definition parse_reviewer :: "node \<Rightarrow> reviewer_person" where
  "parse_reviewer container =
     (let reviewer0 = \<lparr>id' = None, firstName = None, profilePath = None, pictureUrl = None,
                       isSuperhost = False, location = None\<rparr>;
          reviewer1 =
            (case find_profile_link container of
               None \<Rightarrow> reviewer0
             | Some profile_link \<Rightarrow>
                 (let href = the (get_attr profile_link ''href'');
                      r = reviewer0\<lparr>profilePath := Some href, id' := extract_user_id_from_href href\<rparr>
                  in if get_text [] profile_link \<noteq> []
                     then r\<lparr>firstName := Some (get_text [] profile_link)\<rparr> else r));
          reviewer2 =
            (let picture = find_profile_picture container
             in if truthy picture then reviewer1\<lparr>pictureUrl := picture\<rparr> else reviewer1);
          reviewer3 =
            (let loc = find_reviewer_location container
             in if truthy loc then reviewer2\<lparr>location := loc\<rparr> else reviewer2)
      in reviewer3\<lparr>isSuperhost := reviewer_detect_superhost_flag container\<rparr>)"

subsection \<open>HostParser\<close>

text \<open>The two host-response regions, in the order the source lists them.\<close>

definition host_sections :: "node \<Rightarrow> node option list" where
  "host_sections container =
     [find_first (\<lambda>el. tag_name el = ''section'' \<and> get_attr el ''data-testid'' = Some ''host-response'')
        container,
      find_first (\<lambda>el. tag_name el = ''div''
                    \<and> get_attr el ''data-testid'' = Some ''review-detail-host-response'')
        container]"

fun first_in_sections :: "(node \<Rightarrow> 'a option) \<Rightarrow> node option list \<Rightarrow> 'a option" where
  "first_in_sections f [] = None"
| "first_in_sections f (None # secs) = first_in_sections f secs"
| "first_in_sections f (Some sec # secs) =
     (case f sec of Some x \<Rightarrow> Some x | None \<Rightarrow> first_in_sections f secs)"

definition find_host_link :: "node \<Rightarrow> node option" where
  "find_host_link container =
     (case first_in_sections
             (\<lambda>sec. case profile_links sec of [] \<Rightarrow> None | link # links \<Rightarrow> Some link)
             (host_sections container) of
        Some link \<Rightarrow> Some link
      | None \<Rightarrow>
          (if contains ''response from'' (lower (get_text '' '' container))
           then (case profile_links container of [] \<Rightarrow> None | link # links \<Rightarrow> Some link)
           else None))"

definition find_host_picture :: "node \<Rightarrow> string option" where
  "find_host_picture container =
     first_in_sections (\<lambda>sec. first_truthy_src (find_all (\<lambda>el. tag_name el = ''img'') sec))
       (host_sections container)"

text \<open>\<open>re.sub(r"^Response from\s+", "", t, flags=re.IGNORECASE)\<close>.\<close>

definition strip_response_from :: "string \<Rightarrow> string" where
  "strip_response_from t =
     (case rmatch \<lparr>ignorecase = True, dotall = False\<rparr> (lits ''Response from'' @ [Rep Space 1 True])
             t [] [] of
        None \<Rightarrow> t
      | Some (g, rest) \<Rightarrow> rest)"

text \<open>\<open>_detect_superhost_flag\<close> of \<open>HostParser\<close>.\<close>

definition host_detect_superhost_flag :: "node \<Rightarrow> bool" where
  "host_detect_superhost_flag container =
     (let t = lower (get_text '' '' container) in contains ''superhost'' t)"

definition parse_host :: "node \<Rightarrow> person" where
  "parse_host container =
     (let host0 = \<lparr>id' = None, firstName = None, profilePath = None, pictureUrl = None,
                   isSuperhost = False\<rparr>;
          host1 =
            (case find_host_link container of
               None \<Rightarrow> host0
             | Some host_link \<Rightarrow>
                 (let href = the (get_attr host_link ''href'');
                      h = host0\<lparr>profilePath := Some href, id' := extract_user_id_from_href href\<rparr>;
                      t = get_text [] host_link
                  in if t \<noteq> [] then h\<lparr>firstName := Some (strip_response_from t)\<rparr> else h));
          host2 =
            (let picture = find_host_picture container
             in if truthy picture then host1\<lparr>pictureUrl := picture\<rparr> else host1)
      in host2\<lparr>isSuperhost := host_detect_superhost_flag container\<rparr>)"

section \<open>Review Assembler\<close>

record review =
  roomUrl :: string
  reviewId :: "string option"
  rating :: "pyfloat option"
  comment :: "string option"
  language :: "string option"
  createdAt :: "string option"
  localizedDate :: "string option"
  reviewer :: reviewer_person
  host :: person
  response :: "string option"
  reviewPhotos :: "string list"

text \<open>
  The language of a comment: \<open>detect\<close> is called on a non-empty comment only, and its
  \<open>LangDetectException\<close> leaves the language unset; any other exception is raised.
\<close>

definition detect_language :: "env \<Rightarrow> string option \<Rightarrow> exn + string option" where
  "detect_language e cm =
     (if truthy cm
      then (case detect e (the cm) of
              Inr code \<Rightarrow> Inr (Some code)
            | Inl exc \<Rightarrow> if exc = LangDetectException then Inr None else Inl exc)
      else Inr None)"

text \<open>
  \<open>ReviewParser._parse_single_review\<close>: the record, or the exception that escapes one of
  the extractors. The extractors run in the order of the source, so the date parser's
  exception comes before the language detector's.
\<close>

definition parse_single_review :: "env \<Rightarrow> node \<Rightarrow> string \<Rightarrow> exn + review" where
  "parse_single_review e container room_url =
     (let review_id =
            py_or (get_attr container ''data-review-id'')
              (py_or (get_attr container ''id'') (extract_review_id_from_attributes container));
          cm = extract_comment container;
          rt = extract_rating container
      in case extract_dates e container of
           Inl exc \<Rightarrow> Inl exc
         | Inr (created_at, localized_date) \<Rightarrow>
             (let rsp = extract_host_response container;
                  review_photos = extract_review_photos container;
                  rv = parse_reviewer container;
                  hst = parse_host container
              in case detect_language e cm of
                   Inl exc \<Rightarrow> Inl exc
                 | Inr lang \<Rightarrow>
                     Inr \<lparr>roomUrl = room_url, reviewId = review_id, rating = rt, comment = cm,
                          language = lang, createdAt = created_at,
                          localizedDate = localized_date, reviewer = rv, host = hst,
                          response = rsp, reviewPhotos = review_photos\<rparr>))"

text \<open>
  The loop of \<open>ReviewParser.parse_reviews\<close> over the containers, \<open>reviews\<close> being the
  list built so far: stop when \<open>max_items\<close> is given and reached; skip a container
  whose record raises; append the record otherwise (a record is a non-empty dictionary,
  so \<open>if review\<close> holds).
\<close>

fun parse_loop :: "env \<Rightarrow> string \<Rightarrow> int option \<Rightarrow> node list \<Rightarrow> review list \<Rightarrow> review list" where
  "parse_loop e room_url max_items [] reviews = reviews"
| "parse_loop e room_url max_items (container # containers) reviews =
     (if (case max_items of None \<Rightarrow> False | Some m \<Rightarrow> int (length reviews) \<ge> m) then reviews
      else (case parse_single_review e container room_url of
              Inl exc \<Rightarrow> parse_loop e room_url max_items containers reviews
            | Inr rv \<Rightarrow> parse_loop e room_url max_items containers (reviews @ [rv])))"

text \<open>\<open>ReviewParser.parse_reviews\<close> on the parsed document.\<close>

definition parse_reviews :: "env \<Rightarrow> node \<Rightarrow> string \<Rightarrow> int option \<Rightarrow> review list" where
  "parse_reviews e soup room_url max_items =
     parse_loop e room_url max_items (find_review_containers soup) []"

text \<open>
  The records of the containers whose assembly does not raise, in the order of the
  containers.
\<close>

definition successes :: "env \<Rightarrow> string \<Rightarrow> node list \<Rightarrow> review list" where
  "successes e room_url containers =
     concat (map (\<lambda>c. case parse_single_review e c room_url of Inl exc \<Rightarrow> [] | Inr rv \<Rightarrow> [rv])
               containers)"

section \<open>Notions used in the properties\<close>

text \<open>
  The elements of a list in the order of their first occurrence, every later occurrence
  dropped.
\<close>

function first_occurrences :: "'a list \<Rightarrow> 'a list" where
  "first_occurrences [] = []"
| "first_occurrences (x # xs) = x # first_occurrences (removeAll x xs)"
  by pat_completeness auto
termination
  by (relation "measure length") (auto simp: length_removeAll_less_eq less_Suc_eq_le)

text \<open>The urls among the visited values that pass the test \<open>if url\<close>.\<close>

definition truthy_urls :: "string option list \<Rightarrow> string list" where
  "truthy_urls us = map the (filter truthy us)"

text \<open>
  A string has the shape of a pattern when it has the pattern's length, a decimal digit
  wherever the pattern has \<open>D\<close> and the pattern's own character everywhere else.
\<close>

fun matches_shape :: "string \<Rightarrow> string \<Rightarrow> bool" where
  "matches_shape [] [] = True"
| "matches_shape (p # ps) (c # cs) =
     ((if p = CHR ''D'' then is_digit c else c = p) \<and> matches_shape ps cs)"
| "matches_shape [] (c # cs) = False"
| "matches_shape (p # ps) [] = False"

text \<open>
  A cut of \<open>body\<close> that keeps \<open>kept\<close> is at a word boundary when a space follows
  \<open>kept\<close> in \<open>body\<close>.
\<close>

definition cut_at_space :: "string \<Rightarrow> string \<Rightarrow> bool" where
  "cut_at_space body kept = starts_with (kept @ '' '') body"

text \<open>The claimed range of a rating: a finite value from 0 to 5.\<close>

fun rating_in_range :: "pyfloat \<Rightarrow> bool" where
  "rating_in_range (Finite q) = (0 \<le> q \<and> q \<le> 5)"
| "rating_in_range (Infinite positive) = False"
| "rating_in_range NaN = False"

text \<open>An atom without group markers: a single character or a repetition.\<close>

fun plain_atom :: "atom \<Rightarrow> bool" where
  "plain_atom (Chr c) = True"
| "plain_atom (Rep c mn greedy) = True"
| "plain_atom (Opt as) = False"
| "plain_atom Group_Open = False"
| "plain_atom Group_Close = False"


text \<open>
  No rating from the explicit attribute: the container has no element with
  \<open>itemprop="ratingValue"\<close> below it, or the first such element has no \<open>content\<close>, or
  \<open>float\<close> rejects its \<open>content\<close> (as it rejects the empty string).
\<close>

definition no_usable_rating_attribute :: "node \<Rightarrow> bool" where
  "no_usable_rating_attribute container =
     (case find_first (\<lambda>el. get_attr el ''itemprop'' = Some ''ratingValue'') container of
        None \<Rightarrow> True
      | Some rating_element \<Rightarrow>
          (case get_attr rating_element ''content'' of
             None \<Rightarrow> True
           | Some v \<Rightarrow> (case py_float v of Inl exc \<Rightarrow> True | Inr x \<Rightarrow> False)))"

text \<open>
  The accessible labels of the elements below the container, in document order; the
  label of the container element itself is not among them.
\<close>

definition labels_of_descendants :: "node \<Rightarrow> string list" where
  "labels_of_descendants container =
     List.map_filter (\<lambda>d. if is_tag d then get_attr d ''aria-label'' else None)
       (descendants container)"

text \<open>
  A label or text gives no rating when the pattern does not match it or \<open>float\<close> rejects
  the number it captures.
\<close>

definition gives_no_rating :: "atom list \<Rightarrow> string \<Rightarrow> bool" where
  "gives_no_rating pat t =
     (case re_search no_flags pat t of
        None \<Rightarrow> True
      | Some (g, rest) \<Rightarrow> (case py_float g of Inl exc \<Rightarrow> True | Inr x \<Rightarrow> False))"

section \<open>Example documents\<close>

text \<open>
  A date parser that knows two timestamps, rejects one text with \<open>ValueError\<close> and fails
  unexpectedly on every other text, and a language detector that answers \<open>en\<close>.
\<close>

definition example_env :: env where
  "example_env =
     \<lparr>dateparser_parse =
        (\<lambda>s. if s = ''2024-01-15T10:30:00''
             then Inr \<lparr>year = 2024, month = 1, day = 15, hour = 10, minute = 30, second = 0,
                       microsecond = 0, tzinfo = None\<rparr>
             else if s = ''2024-01-15T10:30:00.123456Z''
             then Inr \<lparr>year = 2024, month = 1, day = 15, hour = 10, minute = 30, second = 0,
                       microsecond = 123456, tzinfo = Some 0\<rparr>
             else if s = ''a while ago'' then Inl ValueError
             else Inl (Other_Exception ''unexpected'')),
      detect = (\<lambda>s. Inr ''en'')\<rparr>"

text \<open>
  A date parser that knows three timestamps, one of them with the offset \<open>+05:30\<close>, and
  rejects every other text with \<open>ValueError\<close>, as \<open>dateutil\<close> does, and a language detector
  that answers \<open>en\<close>.
\<close>

definition documented_env :: env where
  "documented_env =
     \<lparr>dateparser_parse =
        (\<lambda>s. if s = ''2024-01-15T10:30:00''
             then Inr \<lparr>year = 2024, month = 1, day = 15, hour = 10, minute = 30, second = 0,
                       microsecond = 0, tzinfo = None\<rparr>
             else if s = ''2024-01-15T10:30:00.123456Z''
             then Inr \<lparr>year = 2024, month = 1, day = 15, hour = 10, minute = 30, second = 0,
                       microsecond = 123456, tzinfo = Some 0\<rparr>
             else if s = ''2024-01-15T10:30:00+05:30''
             then Inr \<lparr>year = 2024, month = 1, day = 15, hour = 10, minute = 30, second = 0,
                       microsecond = 0, tzinfo = Some 19800\<rparr>
             else Inl ValueError),
      detect = (\<lambda>s. Inr ''en'')\<rparr>"

definition example_review :: "string \<Rightarrow> string \<Rightarrow> node" where
  "example_review rid date_text =
     Tag ''div'' [(''data-review-id'', rid)]
       [Tag ''time'' [(''datetime'', date_text)] [],
        Tag ''p'' [] [NavigableString ''Lovely flat, would stay again'']]"

definition two_reviews_soup :: node where
  "two_reviews_soup =
     Tag ''[document]'' []
       [Tag ''body'' []
          [example_review ''101'' ''garbled'', example_review ''102'' ''2024-01-15T10:30:00'']]"



definition class_and_article_soup :: node where
  "class_and_article_soup =
     Tag ''[document]'' []
       [Tag ''article'' [] [NavigableString ''About the host''],
        Tag ''div'' [(''class'', ''card review'')] [NavigableString ''Great stay'']]"

definition no_reviews_soup :: node where
  "no_reviews_soup =
     Tag ''[document]'' [] [Tag ''p'' [(''class'', ''reviews'')] [NavigableString ''No reviews yet'']]"

definition repeated_photos_review :: node where
  "repeated_photos_review =
     Tag ''div'' [(''data-review-id'', ''7'')]
       [Tag ''img'' [(''data-testid'', ''review-photo''), (''src'', ''a.jpg'')] [],
        Tag ''img'' [(''data-testid'', ''review-photo''), (''src'', ''b.jpg''),
                     (''data-original-uri'', ''b-large.jpg'')] [],
        Tag ''img'' [(''data-testid'', ''review-photo''), (''src'', ''a.jpg'')] [],
        Tag ''img'' [(''src'', ''avatar.jpg'')] []]"

definition superhost_review :: node where
  "superhost_review =
     Tag ''div'' [(''data-review-id'', ''8'')]
       [Tag ''span'' [] [NavigableString ''Maria''],
        Tag ''span'' [(''class'', ''badge'')] [NavigableString '' SuperHost ''],
        Tag ''p'' [] [NavigableString ''Great stay'']]"

definition long_response_review :: node where
  "long_response_review =
     Tag ''div'' [(''data-review-id'', ''9'')]
       [NavigableString (''Response from Ana: '' @ replicate 2001 CHR ''a'')]"

definition response_text_review :: node where
  "response_text_review =
     Tag ''div'' [(''data-review-id'', ''10'')]
       [Tag ''p'' [] [NavigableString ''Great stay''],
        Tag ''div'' [] [NavigableString ''RESPONSE FROM Ana:''],
        Tag ''div'' [] [NavigableString '' Thank you! '']]"

definition ten_point_review :: node where
  "ten_point_review =
     Tag ''div'' [(''data-review-id'', ''11'')]
       [Tag ''meta'' [(''itemprop'', ''ratingValue''), (''content'', ''10'')] [],
        Tag ''p'' [] [NavigableString ''Perfect'']]"

definition label_on_container_review :: node where
  "label_on_container_review =
     Tag ''div'' [(''data-review-id'', ''13''), (''aria-label'', ''4.5 out of 5'')]
       [Tag ''p'' [] [NavigableString ''Spotless and quiet'']]"

definition unparsable_attribute_review :: node where
  "unparsable_attribute_review =
     Tag ''div'' [(''data-review-id'', ''15'')]
       [Tag ''meta'' [(''itemprop'', ''ratingValue''), (''content'', ''excellent'')] [],
        Tag ''button'' [(''aria-label'', ''Close'')] [],
        Tag ''span'' [(''aria-label'', ''4.5 out of 5'')] [],
        Tag ''p'' [] [NavigableString ''Would give it 3/5 for the noise'']]"

definition labelled_rating_review :: node where
  "labelled_rating_review =
     Tag ''div'' [(''data-review-id'', ''12'')]
       [Tag ''button'' [(''aria-label'', ''Close'')] [],
        Tag ''span'' [(''aria-label'', ''4.5 out of 5'')] [],
        Tag ''p'' [] [NavigableString ''Would give it 3/5 for the noise'']]"

section \<open>The assembler's loop\<close>

lemma successes_Nil [simp]: "successes e u [] = []"
  by (simp add: successes_def)

lemma successes_Cons:
  "successes e u (c # cs) =
     (case parse_single_review e c u of Inl exc \<Rightarrow> [] | Inr rv \<Rightarrow> [rv]) @ successes e u cs"
  by (simp add: successes_def)

lemma successes_append [simp]: "successes e u (xs @ ys) = successes e u xs @ successes e u ys"
  by (simp add: successes_def)

lemma parse_loop_None: "parse_loop e u None cs acc = acc @ successes e u cs"
  by (induction cs arbitrary: acc) (auto simp: successes_Cons split: sum.splits)

lemma parse_loop_Some:
  "parse_loop e u (Some m) cs acc =
     (if int (length acc) \<ge> m then acc else acc @ take (nat m - length acc) (successes e u cs))"
proof (induction cs arbitrary: acc)
  case Nil
  then show ?case by simp
next
  case (Cons c cs)
  show ?case
  proof (cases "int (length acc) \<ge> m")
    case True
    then show ?thesis by simp
  next
    case False
    then have lt: "length acc < nat m" by linarith
    show ?thesis
    proof (cases "parse_single_review e c u")
      case (Inl exc)
      with False show ?thesis by (simp add: Cons.IH successes_Cons)
    next
      case (Inr rv)
      from lt obtain k where k: "nat m - length acc = Suc k" by (metis Suc_diff_Suc)
      have "parse_loop e u (Some m) (c # cs) acc = parse_loop e u (Some m) cs (acc @ [rv])"
        using False Inr by simp
      also have "\<dots> = (if int (length (acc @ [rv])) \<ge> m then acc @ [rv]
                       else (acc @ [rv]) @ take (nat m - length (acc @ [rv])) (successes e u cs))"
        by (rule Cons.IH)
      also have "\<dots> = acc @ take (nat m - length acc) (successes e u (c # cs))"
      proof -
        have k': "nat m - Suc (length acc) = k" using k by linarith
        have "m \<le> 1 + int (length acc) \<Longrightarrow> k = 0" using k by linarith
        then show ?thesis using k k' Inr lt by (auto simp: successes_Cons)
      qed
      finally show ?thesis using False by simp
    qed
  qed
qed

text \<open>
  C1. When the record of one container raises, \<open>parse_reviews\<close> returns what it returns
  on the other containers alone, for every \<open>max_items\<close>: the error is not propagated,
  the container contributes no record and the containers after it are processed as
  before. Without \<open>max_items\<close> the result is the records of all containers before it
  followed by the records of all containers after it.
\<close>

theorem parse_reviews_skips_failing_container:
  assumes "find_review_containers soup = pre @ container # post"
      and "parse_single_review e container room_url = Inl exc"
  shows "parse_reviews e soup room_url max_items = parse_loop e room_url max_items (pre @ post) []
         \<and> parse_reviews e soup room_url None
             = successes e room_url pre @ successes e room_url post"
proof -
  have "successes e room_url (pre @ container # post) = successes e room_url (pre @ post)"
    using assms(2) by (simp add: successes_Cons)
  then show ?thesis
    using assms(1)
    by (cases max_items) (simp_all add: parse_reviews_def parse_loop_None parse_loop_Some)
qed

lemma two_reviews_containers:
  "find_review_containers two_reviews_soup
     = [] @ example_review ''101'' ''garbled'' # [example_review ''102'' ''2024-01-15T10:30:00'']"
  by code_simp

lemma first_of_two_raises:
  "parse_single_review example_env (example_review ''101'' ''garbled'') ''room''
     = Inl (Other_Exception ''unexpected'')"
  by code_simp

lemma second_of_two_parses:
  "map reviewId (successes example_env ''room'' [example_review ''102'' ''2024-01-15T10:30:00''])
     = [Some ''102'']"
  by code_simp

theorem parse_reviews_skips_failing_container_witness:
  "find_review_containers two_reviews_soup
     = [] @ example_review ''101'' ''garbled'' # [example_review ''102'' ''2024-01-15T10:30:00'']
   \<and> parse_single_review example_env (example_review ''101'' ''garbled'') ''room''
       = Inl (Other_Exception ''unexpected'')
   \<and> map reviewId (parse_reviews example_env two_reviews_soup ''room'' None) = [Some ''102'']"
proof -
  have "parse_reviews example_env two_reviews_soup ''room'' None
          = successes example_env ''room'' []
            @ successes example_env ''room'' [example_review ''102'' ''2024-01-15T10:30:00'']"
    using parse_reviews_skips_failing_container
            [OF two_reviews_containers first_of_two_raises, of None]
    by (rule conjunct2)
  then have "map reviewId (parse_reviews example_env two_reviews_soup ''room'' None) = [Some ''102'']"
    using second_of_two_parses by simp
  then show ?thesis
    by (intro conjI) (rule two_reviews_containers, rule first_of_two_raises)
qed












section \<open>Dates of a record\<close>







section \<open>Locating the containers\<close>

lemma first_matching_hit:
  "\<forall>s \<in> set pre. select s soup = [] \<Longrightarrow> select sel soup \<noteq> []
   \<Longrightarrow> first_matching (pre @ sel # post) soup = select sel soup"
  by (induction pre) (simp_all add: Let_def)

lemma first_matching_miss:
  "\<forall>s \<in> set sels. select s soup = [] \<Longrightarrow> first_matching sels soup = []"
  by (induction sels) (simp_all add: Let_def)

text \<open>
  C2. The selectors are tried in their fixed order (review-id attribute, test-id,
  microdata, class \<open>review\<close>, \<open>article\<close>). The locator returns the result of the first
  selector that matches a node, whatever the selectors after it are; when no selector
  matches, the locator and \<open>parse_reviews\<close> return the empty list.
\<close>

theorem find_review_containers_first_match:
  "selectors =
     [Selector None (Has_Attr ''data-review-id''),
      Selector (Some ''div'') (Attr_Eq ''data-testid'' ''review''),
      Selector (Some ''div'') (Attr_Eq ''itemprop'' ''review''),
      Selector (Some ''div'') (Has_Class ''review''),
      Selector (Some ''article'') Any_Attrs]
   \<and> (\<forall>pre sel post.
         selectors = pre @ sel # post \<and> (\<forall>s \<in> set pre. select s soup = [])
         \<and> select sel soup \<noteq> []
         \<longrightarrow> find_review_containers soup = select sel soup
             \<and> first_matching (pre @ sel # later) soup = select sel soup)
   \<and> ((\<forall>s \<in> set selectors. select s soup = [])
        \<longrightarrow> find_review_containers soup = [] \<and> parse_reviews e soup room_url max_items = [])"
proof (intro conjI allI impI)
  show "selectors =
     [Selector None (Has_Attr ''data-review-id''),
      Selector (Some ''div'') (Attr_Eq ''data-testid'' ''review''),
      Selector (Some ''div'') (Attr_Eq ''itemprop'' ''review''),
      Selector (Some ''div'') (Has_Class ''review''),
      Selector (Some ''article'') Any_Attrs]"
    by (simp add: selectors_def)
next
  fix pre sel post
  assume h: "selectors = pre @ sel # post \<and> (\<forall>s \<in> set pre. select s soup = [])
             \<and> select sel soup \<noteq> []"
  then have "first_matching selectors soup = select sel soup"
    using first_matching_hit [of pre soup sel post] by metis
  then show "find_review_containers soup = select sel soup"
    by (simp add: find_review_containers_def)
  from h show "first_matching (pre @ sel # later) soup = select sel soup"
    by (simp add: first_matching_hit)
next
  assume h: "\<forall>s \<in> set selectors. select s soup = []"
  then show c: "find_review_containers soup = []"
    by (simp add: find_review_containers_def first_matching_miss)
  show "parse_reviews e soup room_url max_items = []"
    by (simp add: parse_reviews_def c)
qed

lemma class_before_article:
  "selectors = [Selector None (Has_Attr ''data-review-id''),
      Selector (Some ''div'') (Attr_Eq ''data-testid'' ''review''),
      Selector (Some ''div'') (Attr_Eq ''itemprop'' ''review'')]
      @ Selector (Some ''div'') (Has_Class ''review'') # [Selector (Some ''article'') Any_Attrs]
   \<and> (\<forall>s \<in> set [Selector None (Has_Attr ''data-review-id''),
      Selector (Some ''div'') (Attr_Eq ''data-testid'' ''review''),
      Selector (Some ''div'') (Attr_Eq ''itemprop'' ''review'')]. select s class_and_article_soup = [])
   \<and> select (Selector (Some ''div'') (Has_Class ''review'')) class_and_article_soup \<noteq> []"
  by code_simp

lemma class_selected:
  "select (Selector (Some ''div'') (Has_Class ''review'')) class_and_article_soup
     = [Tag ''div'' [(''class'', ''card review'')] [NavigableString ''Great stay'']]"
  by code_simp

lemma nothing_selected: "\<forall>s \<in> set selectors. select s no_reviews_soup = []"
  by code_simp

theorem find_review_containers_first_match_witness:
  "find_review_containers class_and_article_soup
     = [Tag ''div'' [(''class'', ''card review'')] [NavigableString ''Great stay'']]
   \<and> parse_reviews example_env no_reviews_soup ''room'' None = []"
proof -
  have "find_review_containers class_and_article_soup
          = select (Selector (Some ''div'') (Has_Class ''review'')) class_and_article_soup"
    using find_review_containers_first_match [of class_and_article_soup] class_before_article
    by blast
  moreover have "parse_reviews example_env no_reviews_soup ''room'' None = []"
    using find_review_containers_first_match [of no_reviews_soup _ example_env "''room''" None]
          nothing_selected
    by blast
  ultimately show ?thesis by (simp add: class_selected)
qed

section \<open>Photos\<close>

lemma set_first_occurrences [simp]: "set (first_occurrences xs) = set xs"
  by (induction xs rule: first_occurrences.induct) auto

lemma distinct_first_occurrences [simp]: "distinct (first_occurrences xs)"
  by (induction xs rule: first_occurrences.induct) auto

lemma foldl_add_photo:
  "foldl add_photo acc us
     = acc @ first_occurrences (filter (\<lambda>u. u \<notin> set acc) (truthy_urls us))"
proof (induction us arbitrary: acc)
  case Nil
  then show ?case by (simp add: truthy_urls_def)
next
  case (Cons u us)
  show ?case
  proof (cases "\<exists>x. u = Some x \<and> x \<noteq> [] \<and> x \<notin> set acc")
    case True
    then obtain x where x: "u = Some x" "x \<noteq> []" "x \<notin> set acc" by blast
    have "removeAll x (filter (\<lambda>u. u \<notin> set acc) (truthy_urls us))
            = filter (\<lambda>u. u \<notin> set (acc @ [x])) (truthy_urls us)"
      by (auto simp: removeAll_filter_not_eq intro: filter_cong)
    then show ?thesis
      using x Cons.IH [of "acc @ [x]"] by (simp add: add_photo_def truthy_urls_def)
  next
    case False
    then have "add_photo acc u = acc"
      by (auto simp: add_photo_def split: option.splits)
    moreover have "filter (\<lambda>u. u \<notin> set acc) (truthy_urls (u # us))
                     = filter (\<lambda>u. u \<notin> set acc) (truthy_urls us)"
      using False by (cases u) (auto simp: truthy_urls_def)
    ultimately show ?thesis using Cons.IH [of acc] by simp
  qed
qed

text \<open>
  C8. The photos of a container hold no url twice. They are the non-empty urls the
  extractor visits, in the order of their first occurrence: those of the images under the
  two photo selectors or, when these give none, those of the images under the photo
  containers.
\<close>

theorem review_photos_distinct_first_occurrence:
  "distinct (extract_review_photos container)
   \<and> extract_review_photos container
       = first_occurrences
           (if truthy_urls (marked_photo_urls container) = []
            then truthy_urls (fallback_photo_urls container)
            else truthy_urls (marked_photo_urls container))"
proof -
  have eq: "extract_review_photos container
       = first_occurrences
           (if truthy_urls (marked_photo_urls container) = []
            then truthy_urls (fallback_photo_urls container)
            else truthy_urls (marked_photo_urls container))"
  proof (cases "truthy_urls (marked_photo_urls container)")
    case Nil
    then show ?thesis by (simp add: extract_review_photos_def foldl_add_photo)
  next
    case (Cons x xs)
    then show ?thesis by (simp add: extract_review_photos_def foldl_add_photo)
  qed
  then show ?thesis by simp
qed

theorem review_photos_distinct_first_occurrence_witness:
  "truthy_urls (marked_photo_urls repeated_photos_review)
     = [''a.jpg'', ''b-large.jpg'', ''a.jpg'', ''b-large.jpg'']
   \<and> extract_review_photos repeated_photos_review = [''a.jpg'', ''b-large.jpg'']
   \<and> distinct (extract_review_photos repeated_photos_review)"
proof -
  have m: "truthy_urls (marked_photo_urls repeated_photos_review)
             = [''a.jpg'', ''b-large.jpg'', ''a.jpg'', ''b-large.jpg'']"
    by code_simp
  have "extract_review_photos repeated_photos_review = [''a.jpg'', ''b-large.jpg'']"
    using review_photos_distinct_first_occurrence [of repeated_photos_review]
    by (simp add: m)
  then show ?thesis
    using m review_photos_distinct_first_occurrence [of repeated_photos_review] by simp
qed

section \<open>Superhost flag\<close>

lemma starts_with_iff: "starts_with n s \<longleftrightarrow> (\<exists>post. s = n @ post)"
  by (induction n s rule: starts_with.induct) auto

lemma contains_iff: "contains n s \<longleftrightarrow> (\<exists>pre post. s = pre @ n @ post)"
proof (induction s)
  case Nil
  then show ?case by auto
next
  case (Cons c cs)
  show ?case
  proof
    assume "contains n (c # cs)"
    then consider "starts_with n (c # cs)" | "contains n cs" by auto
    then show "\<exists>pre post. c # cs = pre @ n @ post"
    proof cases
      case 1
      then obtain post where "c # cs = [] @ n @ post" by (auto simp: starts_with_iff)
      then show ?thesis by blast
    next
      case 2
      then obtain pre post where "cs = pre @ n @ post" using Cons.IH by blast
      then have "c # cs = (c # pre) @ n @ post" by simp
      then show ?thesis by blast
    qed
  next
    assume "\<exists>pre post. c # cs = pre @ n @ post"
    then obtain pre post where pp: "c # cs = pre @ n @ post" by blast
    show "contains n (c # cs)"
    proof (cases pre)
      case Nil
      with pp have "starts_with n (c # cs)" by (auto simp: starts_with_iff)
      then show ?thesis by simp
    next
      case (Cons p ps)
      with pp have "cs = ps @ n @ post" by simp
      then have "contains n cs" using Cons.IH by blast
      then show ?thesis by simp
    qed
  qed
qed

lemma map_eq_three:
  assumes "map f s = pre @ n @ post"
  shows "\<exists>a b c. s = a @ b @ c \<and> map f b = n"
proof -
  from assms have "\<exists>us vs. s = us @ vs \<and> pre = map f us \<and> n @ post = map f vs"
    by (simp only: map_eq_append_conv)
  then obtain a r where ar: "s = a @ r" "map f r = n @ post" by auto
  from ar(2) have "\<exists>us vs. r = us @ vs \<and> n = map f us \<and> post = map f vs"
    by (simp only: map_eq_append_conv)
  then obtain b c where "r = b @ c" "map f b = n" by auto
  with ar(1) show ?thesis by blast
qed

lemma contains_lower_iff:
  "contains n (lower s) \<longleftrightarrow> (\<exists>pre w post. s = pre @ w @ post \<and> lower w = n)"
proof
  assume "contains n (lower s)"
  then obtain pre post where "map lower_char s = pre @ n @ post"
    unfolding contains_iff lower_def by blast
  then show "\<exists>pre w post. s = pre @ w @ post \<and> lower w = n"
    unfolding lower_def by (rule map_eq_three)
next
  assume "\<exists>pre w post. s = pre @ w @ post \<and> lower w = n"
  then obtain pre w post where "s = pre @ w @ post" "lower w = n" by blast
  then have "lower s = lower pre @ n @ lower post" by (simp add: lower_def)
  then show "contains n (lower s)" unfolding contains_iff by blast
qed

lemma isSuperhost_parse_reviewer:
  "isSuperhost (parse_reviewer c) = reviewer_detect_superhost_flag c"
  by (simp add: parse_reviewer_def Let_def)

lemma isSuperhost_parse_host: "isSuperhost (parse_host c) = host_detect_superhost_flag c"
  by (simp add: parse_host_def Let_def)

lemma parse_single_review_people:
  "parse_single_review e c u = Inr rv \<Longrightarrow> reviewer rv = parse_reviewer c \<and> host rv = parse_host c"
  by (auto simp: parse_single_review_def Let_def split: sum.splits prod.splits)

text \<open>
  C10. The reviewer's and the host's \<open>isSuperhost\<close> are equal; the two detectors are the
  same function of the container; the flag holds exactly when some part of the
  container's text, joined by single spaces, is \<open>superhost\<close> after lower-casing; and the
  two flags of every assembled record are equal.
\<close>

theorem superhost_flags_agree:
  "isSuperhost (parse_reviewer container) = isSuperhost (parse_host container)
   \<and> reviewer_detect_superhost_flag container = host_detect_superhost_flag container
   \<and> (isSuperhost (parse_host container)
        \<longleftrightarrow> (\<exists>pre w post. get_text '' '' container = pre @ w @ post \<and> lower w = ''superhost''))
   \<and> (\<forall>rv. parse_single_review e container room_url = Inr rv
         \<longrightarrow> isSuperhost (reviewer rv) = isSuperhost (host rv)
             \<and> isSuperhost (host rv) = host_detect_superhost_flag container)"
proof -
  have same: "reviewer_detect_superhost_flag container = host_detect_superhost_flag container"
    by (simp add: reviewer_detect_superhost_flag_def host_detect_superhost_flag_def Let_def)
  have chr: "host_detect_superhost_flag container
        \<longleftrightarrow> (\<exists>pre w post. get_text '' '' container = pre @ w @ post \<and> lower w = ''superhost'')"
    unfolding host_detect_superhost_flag_def Let_def by (rule contains_lower_iff)
  show ?thesis
    using same chr
    by (auto simp: isSuperhost_parse_reviewer isSuperhost_parse_host
             dest!: parse_single_review_people)
qed

lemma superhost_review_text:
  "get_text '' '' superhost_review = ''Maria '' @ ''SuperHost'' @ '' Great stay''"
  by code_simp

theorem superhost_flags_agree_witness:
  "isSuperhost (parse_reviewer superhost_review) \<and> isSuperhost (parse_host superhost_review)
   \<and> get_text '' '' superhost_review = ''Maria SuperHost Great stay''"
proof -
  have "lower ''SuperHost'' = ''superhost''" by code_simp
  with superhost_review_text
  have "\<exists>pre w post. get_text '' '' superhost_review = pre @ w @ post \<and> lower w = ''superhost''"
    by blast
  then have "isSuperhost (parse_reviewer superhost_review) \<and> isSuperhost (parse_host superhost_review)"
    using superhost_flags_agree [of superhost_review] by blast
  then show ?thesis using superhost_review_text by simp
qed

section \<open>Format of the dates\<close>

lemma matches_shape_digits:
  "\<forall>c \<in> set s. is_digit c \<Longrightarrow> matches_shape (replicate (length s) CHR ''D'') s"
  by (induction s) auto

lemma is_digit_digit_char: "d < 10 \<Longrightarrow> is_digit (digit_char d)"
  by (simp add: is_digit_def digit_char_def)

lemma decimal_digits: "\<forall>c \<in> set (decimal n). is_digit c"
proof (induction n rule: decimal.induct)
  case (1 n)
  show ?case
  proof (cases "n < 10")
    case True
    then show ?thesis by (simp add: decimal.simps [of n] is_digit_digit_char)
  next
    case False
    then show ?thesis
      using 1 by (simp add: decimal.simps [of n] is_digit_digit_char)
  qed
qed

lemma length_decimal: "0 < w \<Longrightarrow> n < 10 ^ w \<Longrightarrow> length (decimal n) \<le> w"
proof (induction n arbitrary: w rule: decimal.induct)
  case (1 n)
  show ?case
  proof (cases "n < 10")
    case True
    then show ?thesis using "1.prems" by (simp add: decimal.simps [of n])
  next
    case False
    then obtain v where v: "w = Suc v" using "1.prems" by (cases w) auto
    have "0 < v" using False "1.prems" v by (cases v) auto
    moreover have "n div 10 < 10 ^ v" using "1.prems" v by (simp add: less_mult_imp_div_less mult.commute)
    ultimately have "length (decimal (n div 10)) \<le> v" using "1.IH" False by blast
    then show ?thesis using False v by (simp add: decimal.simps [of n])
  qed
qed

lemma zfill_shape:
  assumes "0 < w" and "n < 10 ^ w"
  shows "length (zfill w n) = w" and "matches_shape (replicate w CHR ''D'') (zfill w n)"
proof -
  have le: "length (decimal n) \<le> w" using assms by (rule length_decimal)
  then show len: "length (zfill w n) = w" by (simp add: zfill_def)
  have "\<forall>c \<in> set (zfill w n). is_digit c"
    using decimal_digits [of n] by (auto simp: zfill_def is_digit_def)
  then have "matches_shape (replicate (length (zfill w n)) CHR ''D'') (zfill w n)"
    by (rule matches_shape_digits)
  then show "matches_shape (replicate w CHR ''D'') (zfill w n)" by (simp only: len)
qed

lemma replicate_D:
  "replicate 2 CHR ''D'' = ''DD''" "replicate 4 CHR ''D'' = ''DDDD''"
  "replicate 6 CHR ''D'' = ''DDDDDD''"
  by code_simp+

lemma zfill2: "n < 100 \<Longrightarrow> length (zfill 2 n) = 2 \<and> matches_shape ''DD'' (zfill 2 n)"
  using zfill_shape [of 2 n] by (simp add: replicate_D)

lemma zfill4: "n < 10000 \<Longrightarrow> length (zfill 4 n) = 4 \<and> matches_shape ''DDDD'' (zfill 4 n)"
  using zfill_shape [of 4 n] by (simp add: replicate_D)

lemma zfill6: "n < 1000000 \<Longrightarrow> length (zfill 6 n) = 6 \<and> matches_shape ''DDDDDD'' (zfill 6 n)"
  using zfill_shape [of 6 n] by (simp add: replicate_D)

lemma matches_shape_appendI:
  "matches_shape p1 s1 \<Longrightarrow> matches_shape p2 s2 \<Longrightarrow> matches_shape (p1 @ p2) (s1 @ s2)"
  by (induction p1 s1 rule: matches_shape.induct) auto

lemma matches_shape_literal: "CHR ''D'' \<notin> set p \<Longrightarrow> matches_shape p p"
  by (induction p) auto

lemma isoformat_shape:
  assumes "valid_datetime dt"
  shows "matches_shape
           (if microsecond dt = 0 then ''DDDD-DD-DDTDD:DD:DDZ'' else ''DDDD-DD-DDTDD:DD:DD.DDDDDDZ'')
           (isoformat (dt\<lparr>tzinfo := None\<rparr>) @ ''Z'')"
proof -
  from assms have y: "year dt < 10000" and m: "month dt < 100" and d: "day dt < 100"
    and h: "hour dt < 100" and mi: "minute dt < 100" and s: "second dt < 100"
    and us: "microsecond dt < 1000000"
    by (auto simp: valid_datetime_def)
  note parts = zfill4 [OF y, THEN conjunct2] zfill2 [OF m, THEN conjunct2]
    zfill2 [OF d, THEN conjunct2] zfill2 [OF h, THEN conjunct2] zfill2 [OF mi, THEN conjunct2]
    zfill2 [OF s, THEN conjunct2] zfill6 [OF us, THEN conjunct2]
  show ?thesis
  proof (cases "microsecond dt = 0")
    case True
    have pat: "(if microsecond dt = 0 then ''DDDD-DD-DDTDD:DD:DDZ''
                else ''DDDD-DD-DDTDD:DD:DD.DDDDDDZ'')
               = ''DDDD'' @ ''-'' @ ''DD'' @ ''-'' @ ''DD'' @ ''T'' @ ''DD'' @ '':'' @ ''DD'' @ '':''
                 @ ''DD'' @ [] @ ''Z''"
      using True by simp
    have str: "isoformat (dt\<lparr>tzinfo := None\<rparr>) @ ''Z''
       = zfill 4 (year dt) @ ''-'' @ zfill 2 (month dt) @ ''-'' @ zfill 2 (day dt) @ ''T''
         @ zfill 2 (hour dt) @ '':'' @ zfill 2 (minute dt) @ '':'' @ zfill 2 (second dt)
         @ [] @ ''Z''"
      using True by (simp add: isoformat_def)
    show ?thesis
      unfolding pat str
      by (intro matches_shape_appendI parts matches_shape_literal) simp_all
  next
    case False
    have pat: "(if microsecond dt = 0 then ''DDDD-DD-DDTDD:DD:DDZ''
                else ''DDDD-DD-DDTDD:DD:DD.DDDDDDZ'')
               = ''DDDD'' @ ''-'' @ ''DD'' @ ''-'' @ ''DD'' @ ''T'' @ ''DD'' @ '':'' @ ''DD'' @ '':''
                 @ ''DD'' @ (''.'' @ ''DDDDDD'') @ ''Z''"
      using False by simp
    have str: "isoformat (dt\<lparr>tzinfo := None\<rparr>) @ ''Z''
       = zfill 4 (year dt) @ ''-'' @ zfill 2 (month dt) @ ''-'' @ zfill 2 (day dt) @ ''T''
         @ zfill 2 (hour dt) @ '':'' @ zfill 2 (minute dt) @ '':'' @ zfill 2 (second dt)
         @ (''.'' @ zfill 6 (microsecond dt)) @ ''Z''"
      using False by (simp add: isoformat_def)
    show ?thesis
      unfolding pat str
      by (intro matches_shape_appendI parts matches_shape_literal) simp_all
  qed
qed

text \<open>
  C6, in the form that holds of the code. When the captured date text parses to a valid
  timestamp, \<open>createdAt\<close> has the shape \<open>YYYY-MM-DDTHH:MM:SSZ\<close> if the timestamp's
  microsecond field is zero and the shape \<open>YYYY-MM-DDTHH:MM:SS.ffffffZ\<close> otherwise, in
  both cases with the suffix \<open>Z\<close> and without an offset. When the timestamp is in UTC
  (its offset is zero) or carries no offset, \<open>createdAt\<close> is the timestamp's own date
  and time: its year, month, day, hour, minute and second, zero-padded, and its
  microseconds when they are not zero. \<open>localizedDate\<close> is the English name of the
  timestamp's month, a space and its year in decimal.
\<close>

theorem extract_dates_format:
  assumes "date_text_of container = Some t" and "t \<noteq> []"
      and "dateparser_parse e t = Inr dt" and "valid_datetime dt"
  shows "\<exists>created_at.
           extract_dates e container
             = Inr (Some created_at,
                    Some (month_names ! (month dt - 1) @ '' '' @ decimal (year dt)))
           \<and> matches_shape
                (if microsecond dt = 0 then ''DDDD-DD-DDTDD:DD:DDZ''
                 else ''DDDD-DD-DDTDD:DD:DD.DDDDDDZ'')
                created_at
           \<and> (tzinfo dt = None \<or> tzinfo dt = Some 0
                \<longrightarrow> created_at
                      = zfill 4 (year dt) @ ''-'' @ zfill 2 (month dt) @ ''-'' @ zfill 2 (day dt)
                        @ ''T'' @ zfill 2 (hour dt) @ '':'' @ zfill 2 (minute dt) @ '':''
                        @ zfill 2 (second dt)
                        @ (if microsecond dt = 0 then [] else ''.'' @ zfill 6 (microsecond dt))
                        @ ''Z'')
           \<and> month_names ! (month dt - 1) \<in> set month_names
           \<and> (\<forall>c \<in> set (decimal (year dt)). is_digit c)"
proof -
  have ed: "extract_dates e container
         = Inr (Some (isoformat (dt\<lparr>tzinfo := None\<rparr>) @ ''Z''),
                Some (month_names ! (month dt - 1) @ '' '' @ decimal (year dt)))"
    using assms(1-3) by (simp add: extract_dates_def strftime_B_Y_def)
  have "month dt - 1 < length month_names"
    using assms(4) by (auto simp: valid_datetime_def month_names_def)
  then have mn: "month_names ! (month dt - 1) \<in> set month_names" by (rule nth_mem)
  have fields: "isoformat (dt\<lparr>tzinfo := None\<rparr>) @ ''Z''
      = zfill 4 (year dt) @ ''-'' @ zfill 2 (month dt) @ ''-'' @ zfill 2 (day dt)
        @ ''T'' @ zfill 2 (hour dt) @ '':'' @ zfill 2 (minute dt) @ '':''
        @ zfill 2 (second dt)
        @ (if microsecond dt = 0 then [] else ''.'' @ zfill 6 (microsecond dt))
        @ ''Z''"
    by (simp add: isoformat_def)
  from ed mn fields isoformat_shape [OF assms(4)] decimal_digits [of "year dt"]
  show ?thesis by blast
qed

text \<open>
  A \<open>time\<close> element whose timestamp has a fraction of a second: \<open>createdAt\<close> carries the
  six fractional digits and is not at seconds precision.
\<close>

lemma digit_char_values:
  "digit_char 0 = CHR ''0''" "digit_char (Suc 0) = CHR ''1''" "digit_char 2 = CHR ''2''"
  "digit_char 3 = CHR ''3''" "digit_char 4 = CHR ''4''" "digit_char 5 = CHR ''5''"
  "digit_char 6 = CHR ''6''" "digit_char 7 = CHR ''7''" "digit_char 8 = CHR ''8''"
  "digit_char 9 = CHR ''9''"
  by code_simp+

lemma fractional_date_text:
  "date_text_of (example_review ''6'' ''2024-01-15T10:30:00.123456Z'')
     = Some ''2024-01-15T10:30:00.123456Z''"
  by code_simp

lemma fractional_not_seconds_shape:
  "\<not> matches_shape ''DDDD-DD-DDTDD:DD:DDZ'' ''2024-01-15T10:30:00.123456Z''"
  by code_simp

theorem created_at_seconds_precision_counterexample:
  "extract_dates example_env (example_review ''6'' ''2024-01-15T10:30:00.123456Z'')
     = Inr (Some ''2024-01-15T10:30:00.123456Z'', Some ''January 2024'')
   \<and> \<not> matches_shape ''DDDD-DD-DDTDD:DD:DDZ'' ''2024-01-15T10:30:00.123456Z''"
proof -
  have "extract_dates example_env (example_review ''6'' ''2024-01-15T10:30:00.123456Z'')
          = Inr (Some ''2024-01-15T10:30:00.123456Z'', Some ''January 2024'')"
    by (simp add: extract_dates_def fractional_date_text example_env_def isoformat_def
          strftime_B_Y_def month_names_def zfill_def decimal.simps digit_char_values)
  then show ?thesis using fractional_not_seconds_shape by (rule conjI)
qed

lemma parsed_date_text:
  "date_text_of (example_review ''2'' ''2024-01-15T10:30:00'') = Some ''2024-01-15T10:30:00''"
  by code_simp

lemma parsed_datetime:
  "dateparser_parse example_env ''2024-01-15T10:30:00''
     = Inr \<lparr>year = 2024, month = 1, day = 15, hour = 10, minute = 30, second = 0,
            microsecond = 0, tzinfo = None\<rparr>"
  by code_simp

lemma parsed_valid:
  "valid_datetime \<lparr>year = 2024, month = 1, day = 15, hour = 10, minute = 30, second = 0,
            microsecond = 0, tzinfo = None\<rparr>"
  by (simp add: valid_datetime_def)

lemma parsed_dates:
  "extract_dates example_env (example_review ''2'' ''2024-01-15T10:30:00'')
     = Inr (Some ''2024-01-15T10:30:00Z'', Some ''January 2024'')"
  by code_simp

theorem extract_dates_format_witness:
  "extract_dates example_env (example_review ''2'' ''2024-01-15T10:30:00'')
     = Inr (Some ''2024-01-15T10:30:00Z'', Some ''January 2024'')
   \<and> matches_shape ''DDDD-DD-DDTDD:DD:DDZ'' ''2024-01-15T10:30:00Z''"
proof -
  have "''2024-01-15T10:30:00'' \<noteq> []" by simp
  from extract_dates_format [OF parsed_date_text this parsed_datetime parsed_valid]
  obtain created_at where
    ed: "extract_dates example_env (example_review ''2'' ''2024-01-15T10:30:00'')
           = Inr (Some created_at,
                  Some (month_names !
                         (month \<lparr>year = 2024, month = 1, day = 15, hour = 10, minute = 30,
                                  second = 0, microsecond = 0, tzinfo = None\<rparr> - 1)
                        @ '' ''
                        @ decimal (year \<lparr>year = 2024, month = 1, day = 15, hour = 10,
                                           minute = 30, second = 0, microsecond = 0,
                                           tzinfo = None\<rparr>)))"
    and sh: "matches_shape
               (if microsecond \<lparr>year = 2024, month = 1, day = 15, hour = 10, minute = 30,
                                 second = 0, microsecond = 0, tzinfo = None\<rparr> = 0
                then ''DDDD-DD-DDTDD:DD:DDZ'' else ''DDDD-DD-DDTDD:DD:DD.DDDDDDZ'')
               created_at"
    by blast
  from ed have "created_at = ''2024-01-15T10:30:00Z''"
    by (simp only: parsed_dates sum.inject prod.inject option.inject)
  with sh have "matches_shape ''DDDD-DD-DDTDD:DD:DDZ'' ''2024-01-15T10:30:00Z''"
    by simp
  then show ?thesis using parsed_dates by blast
qed

text \<open>
  A timestamp with the offset \<open>+05:30\<close>: the offset is dropped and the time of day
  \<open>10:30\<close> is printed as it stands under the suffix \<open>Z\<close>, where the same instant in UTC
  is \<open>05:00\<close>.
\<close>

lemma offset_dropped_without_conversion:
  "dateparser_parse documented_env ''2024-01-15T10:30:00+05:30''
     = Inr \<lparr>year = 2024, month = 1, day = 15, hour = 10, minute = 30, second = 0,
            microsecond = 0, tzinfo = Some 19800\<rparr>
   \<and> extract_dates documented_env (example_review ''14'' ''2024-01-15T10:30:00+05:30'')
       = Inr (Some ''2024-01-15T10:30:00Z'', Some ''January 2024'')"
  by code_simp

section \<open>Matching the patterns\<close>

lemma rmatch_lits_ci:
  "ignorecase f \<Longrightarrow> length p = length s \<Longrightarrow> lower p = lower s
   \<Longrightarrow> rmatch f (lits s @ r) (p @ t) gs cap = rmatch f r t gs cap"
proof (induction s arbitrary: p)
  case Nil
  then show ?case by (simp add: lits_def)
next
  case (Cons l s)
  then obtain c p' where p: "p = c # p'" by (cases p) auto
  with Cons.prems have "lower_char c = lower_char l" "length p' = length s" "lower p' = lower s"
    by (simp_all add: lower_def)
  then show ?case
    using Cons.IH [of p'] Cons.prems(1) p by (simp add: lits_def)
qed

lemma rmatch_lits_ci_fail:
  "ignorecase f \<Longrightarrow> \<not> starts_with (lower s) (lower t) \<Longrightarrow> rmatch f (lits s @ r) t gs cap = None"
proof (induction s arbitrary: t)
  case Nil
  then show ?case by (simp add: lower_def)
next
  case (Cons l s)
  show ?case
  proof (cases t)
    case Nil
    then show ?thesis by (simp add: lits_def)
  next
    case (Cons c t')
    show ?thesis
    proof (cases "lower_char c = lower_char l")
      case True
      with Cons.prems Cons have "\<not> starts_with (lower s) (lower t')" by (simp add: lower_def)
      then have "rmatch f (lits s @ r) t' gs cap = None" using Cons.IH Cons.prems(1) by blast
      then show ?thesis using Cons True Cons.prems(1) by (simp add: lits_def)
    next
      case False
      then show ?thesis using Cons Cons.prems(1) by (simp add: lits_def)
    qed
  qed
qed

lemma rep_lazy_skip:
  "\<forall>c \<in> set h. p c \<Longrightarrow> \<forall>c \<in> set h. \<forall>t. k (c # t) = None
   \<Longrightarrow> rep_lazy p 0 k (h @ s) = rep_lazy p 0 k s"
  by (induction h) simp_all

lemma rep_greedy_run:
  "\<forall>c \<in> set w. p c \<Longrightarrow> b = [] \<or> \<not> p (hd b) \<Longrightarrow> k b = Some r
   \<Longrightarrow> rep_greedy p 0 k (w @ b) = Some r"
proof (induction w)
  case Nil
  then show ?case by (cases b) auto
next
  case (Cons c w)
  then have "rep_greedy p 0 k (w @ b) = Some r" by simp
  then show ?case using Cons.prems by simp
qed

lemma rep_greedy_all:
  "\<forall>c \<in> set s. p c \<Longrightarrow> mn \<le> length s \<Longrightarrow> k [] = Some r \<Longrightarrow> rep_greedy p mn k s = Some r"
proof (induction s arbitrary: mn)
  case Nil
  then show ?case by simp
next
  case (Cons c s)
  then have "rep_greedy p (mn - 1) k s = Some r" by (intro Cons.IH) auto
  then show ?case using Cons.prems by simp
qed

lemma lower_char_colon: "lower_char c = CHR '':'' \<longleftrightarrow> c = CHR '':''"
proof
  assume h: "lower_char c = CHR '':''"
  show "c = CHR '':''"
  proof (rule ccontr)
    assume ne: "c \<noteq> CHR '':''"
    with h have "lower_char c \<noteq> c" by auto
    then have "lower_char c = char_of ((of_char c :: nat) + 32)"
      and rng: "(65 \<le> (of_char c :: nat) \<and> (of_char c :: nat) \<le> 90)
                \<or> (192 \<le> (of_char c :: nat) \<and> (of_char c :: nat) \<le> 222)"
      by (auto simp: lower_char_def Let_def split: if_splits)
    with h have "(of_char (char_of ((of_char c :: nat) + 32)) :: nat) = of_char CHR '':''" by simp
    then have "((of_char c :: nat) + 32) mod 256 = 58" by simp
    with rng show False by auto
  qed
next
  assume "c = CHR '':''"
  then show "lower_char c = CHR '':''" by (simp add: lower_char_def)
qed

lemma re_search_skip:
  "\<forall>i < length pre. rmatch f pat (drop i (pre @ t)) [] [] = None
   \<Longrightarrow> re_search f pat (pre @ t) = re_search f pat t"
proof (induction pre)
  case Nil
  then show ?case by simp
next
  case (Cons c pre)
  have "rmatch f pat (c # pre @ t) [] [] = None" using Cons.prems by force
  moreover have "\<forall>i < length pre. rmatch f pat (drop i (pre @ t)) [] [] = None"
  proof (intro allI impI)
    fix i assume "i < length pre"
    then have "Suc i < length (c # pre)" by simp
    then have "rmatch f pat (drop (Suc i) ((c # pre) @ t)) [] [] = None" using Cons.prems by blast
    then show "rmatch f pat (drop i (pre @ t)) [] [] = None" by simp
  qed
  ultimately show ?case using Cons.IH by simp
qed

lemma re_search_here: "rmatch f pat t [] [] = Some m \<Longrightarrow> re_search f pat t = Some m"
  by (cases t) simp_all

lemma response_pattern_match:
  assumes p: "lower p = ''response from''"
      and h: "CHR '':'' \<notin> set h"
      and w: "\<forall>c \<in> set w. is_space c"
      and b: "b \<noteq> []" "\<not> is_space (hd b)"
  shows "rmatch response_flags response_pattern (p @ h @ '':'' @ w @ b) [] [] = Some (b, [])"
proof -
  let ?f = response_flags
  have ic: "ignorecase ?f" and da: "dotall ?f" by (simp_all add: response_flags_def)
  have "length (lower p) = 13" using p by simp
  then have lp: "length p = length ''Response from''" by (simp add: lower_def)
  have "lower ''Response from'' = ''response from''" by code_simp
  then have lw: "lower p = lower ''Response from''" using p by simp
  let ?k3 = "\<lambda>s'. rmatch ?f [Group_Close] s' b []"
  have k3: "?k3 [] = Some (b, [])" by simp
  have cap: "rmatch ?f [Group_Open, Rep Any_Char 1 True, Group_Close] b [] [] = Some (b, [])"
    using rep_greedy_all [of b "in_class ?f Any_Char" 1 ?k3, OF _ _ k3] b(1) da
    by (cases b) simp_all
  let ?k2 = "\<lambda>s'. rmatch ?f [Group_Open, Rep Any_Char 1 True, Group_Close] s' [] []"
  have sp: "rmatch ?f [Rep Space 0 True, Group_Open, Rep Any_Char 1 True, Group_Close] (w @ b) [] []
              = Some (b, [])"
    using rep_greedy_run [of w "in_class ?f Space" b ?k2, OF _ _ cap] w b by simp
  let ?k1 = "\<lambda>s'. rmatch ?f [Chr (Lit CHR '':''), Rep Space 0 True, Group_Open, Rep Any_Char 1 True,
                              Group_Close] s' [] []"
  have colon: "?k1 ('':'' @ w @ b) = Some (b, [])"
    using sp ic by simp
  have nocolon: "\<forall>c \<in> set h. \<forall>t. ?k1 (c # t) = None"
  proof -
    have lc: "lower_char CHR '':'' = CHR '':''" by (simp add: lower_char_colon)
    show ?thesis using h ic by (auto simp: lc lower_char_colon)
  qed
  have "rep_lazy (in_class ?f Any_Char) 0 ?k1 (h @ '':'' @ w @ b)
          = rep_lazy (in_class ?f Any_Char) 0 ?k1 ('':'' @ w @ b)"
    using nocolon da by (intro rep_lazy_skip) simp_all
  also have "\<dots> = Some (b, [])" using colon by simp
  finally have lazy: "rmatch ?f [Rep Any_Char 0 False, Chr (Lit CHR '':''), Rep Space 0 True,
                              Group_Open, Rep Any_Char 1 True, Group_Close] (h @ '':'' @ w @ b) [] []
                        = Some (b, [])"
    by simp
  show ?thesis
    unfolding response_pattern_def
    using rmatch_lits_ci [OF ic lp lw] lazy by simp
qed

lemma window_in_prefix: "i + n \<le> m \<Longrightarrow> take n (drop i (take m xs)) = take n (drop i xs)"
  by (simp add: drop_take min_def)

lemma starts_with_take: "starts_with n s \<longleftrightarrow> take (length n) s = n"
  by (induction n s rule: starts_with.induct) auto

lemma contains_window: "take (length n) (drop i s) = n \<Longrightarrow> contains n s"
proof -
  assume "take (length n) (drop i s) = n"
  then have "s = take i s @ n @ drop (length n) (drop i s)"
    by (metis append_take_drop_id)
  then show ?thesis unfolding contains_iff by blast
qed

lemma no_earlier_literal:
  assumes nc: "\<not> contains (lower s) (lower (pre @ take (length s - 1) rest))"
      and ic: "ignorecase f" and ne: "s \<noteq> []"
  shows "\<forall>i < length pre. rmatch f (lits s @ r) (drop i (pre @ rest)) [] [] = None"
proof (intro allI impI)
  fix i assume i: "i < length pre"
  let ?n = "length (lower s)"
  let ?m = "length pre + (length s - 1)"
  have "\<not> starts_with (lower s) (lower (drop i (pre @ rest)))"
  proof
    assume "starts_with (lower s) (lower (drop i (pre @ rest)))"
    then have t: "take ?n (drop i (lower (pre @ rest))) = lower s"
      by (simp add: starts_with_take lower_def drop_map)
    have le: "i + ?n \<le> ?m" using i ne by (cases s) (simp_all add: lower_def)
    have "lower (pre @ take (length s - 1) rest) = take ?m (lower (pre @ rest))"
      by (simp add: lower_def take_map)
    then have "take ?n (drop i (lower (pre @ take (length s - 1) rest))) = lower s"
      using t window_in_prefix [OF le] by metis
    then have "contains (lower s) (lower (pre @ take (length s - 1) rest))"
      by (rule contains_window)
    with nc show False by blast
  qed
  then show "rmatch f (lits s @ r) (drop i (pre @ rest)) [] [] = None"
    using ic by (rule rmatch_lits_ci_fail [rotated])
qed

lemma response_pattern_search:
  assumes nc: "\<not> contains ''response from'' (lower (pre @ take 12 p))"
      and p: "lower p = ''response from''"
      and h: "CHR '':'' \<notin> set h"
      and w: "\<forall>c \<in> set w. is_space c"
      and b: "b \<noteq> []" "\<not> is_space (hd b)"
  shows "re_search response_flags response_pattern (pre @ p @ h @ '':'' @ w @ b) = Some (b, [])"
proof -
  have lw: "lower ''Response from'' = ''response from''" by code_simp
  have "length (lower p) = 13" using p by simp
  then have lp: "length p = 13" by (simp add: lower_def)
  have "length ''Response from'' - 1 = (12::nat)" by simp
  then have tk: "take (length ''Response from'' - 1) (p @ h @ '':'' @ w @ b) = take 12 p"
    using lp by (simp only: take_append) simp
  have ic: "ignorecase response_flags" by (simp add: response_flags_def)
  have "\<forall>i < length pre. rmatch response_flags
           (lits ''Response from''
             @ [Rep Any_Char 0 False, Chr (Lit CHR '':''), Rep Space 0 True,
                Group_Open, Rep Any_Char 1 True, Group_Close])
           (drop i (pre @ p @ h @ '':'' @ w @ b)) [] [] = None"
  proof -
    have a: "\<not> contains (lower ''Response from'')
                 (lower (pre @ take (length ''Response from'' - 1) (p @ h @ '':'' @ w @ b)))"
      unfolding lw tk by (rule nc)
    have ne: "''Response from'' \<noteq> []" by simp
    show ?thesis by (rule no_earlier_literal [OF a ic ne])
  qed
  then have "re_search response_flags response_pattern (pre @ p @ h @ '':'' @ w @ b)
               = re_search response_flags response_pattern (p @ h @ '':'' @ w @ b)"
    unfolding response_pattern_def by (rule re_search_skip)
  also have "\<dots> = Some (b, [])"
    by (intro re_search_here response_pattern_match assms)
  finally show ?thesis .
qed

section \<open>Host response\<close>

lemma rsplit_space_head_split:
  assumes "CHR '' '' \<in> set s"
  shows "\<exists>rest. s = rsplit_space_head s @ CHR '' '' # rest \<and> CHR '' '' \<notin> set rest"
proof -
  from assms obtain ys zs where yz: "s = ys @ CHR '' '' # zs" "CHR '' '' \<notin> set zs"
    by (meson split_list_last)
  have "dropWhile (\<lambda>c. c \<noteq> CHR '' '') (rev zs @ CHR '' '' # rev ys) = CHR '' '' # rev ys"
    using yz(2) by (auto simp: dropWhile_append3)
  then have "rsplit_space_head s = ys"
    using assms yz(1) by (simp add: rsplit_space_head_def)
  then have "s = rsplit_space_head s @ CHR '' '' # zs" using yz(1) by simp
  with yz(2) show ?thesis by (intro exI [of _ zs] conjI)
qed

lemma limit_response_short: "length body \<le> 2000 \<Longrightarrow> limit_response body = body"
  by (simp add: limit_response_def)

lemma limit_response_long:
  assumes "length body > 2000"
  shows "\<exists>kept. limit_response body = kept @ ellipsis \<and> length kept \<le> 2000
           \<and> starts_with kept body
           \<and> (if CHR '' '' \<in> set (take 2000 body)
                then cut_at_space body kept
                     \<and> CHR '' '' \<notin> set (drop (Suc (length kept)) (take 2000 body))
                else kept = take 2000 body)"
proof (cases "CHR '' '' \<in> set (take 2000 body)")
  case True
  let ?kept = "rsplit_space_head (take 2000 body)"
  from rsplit_space_head_split [OF True] obtain rest
    where r: "take 2000 body = ?kept @ CHR '' '' # rest" "CHR '' '' \<notin> set rest" by blast
  have b: "body = ?kept @ CHR '' '' # rest @ drop 2000 body"
    using r(1) by (metis append_take_drop_id append.assoc append_Cons)
  have len: "length ?kept \<le> 2000"
  proof -
    have "length (take 2000 body) = length ?kept + Suc (length rest)"
      by (subst r(1)) simp
    then show ?thesis by simp
  qed
  have sw: "starts_with ?kept body" using b unfolding starts_with_iff by blast
  have cut: "cut_at_space body ?kept"
    unfolding cut_at_space_def starts_with_iff using b by (metis append.assoc append_Cons append_Nil)
  have "drop (Suc (length ?kept)) (take 2000 body) = rest"
    by (subst r(1)) simp
  then have tail: "CHR '' '' \<notin> set (drop (Suc (length ?kept)) (take 2000 body))"
    using r(2) by simp
  have "limit_response body = ?kept @ ellipsis" using assms by (simp add: limit_response_def)
  with len sw cut tail True show ?thesis by auto
next
  case False
  have "limit_response body = take 2000 body @ ellipsis"
    using assms False by (simp add: limit_response_def rsplit_space_head_def)
  moreover have "starts_with (take 2000 body) body"
    unfolding starts_with_iff by (metis append_take_drop_id)
  ultimately show ?thesis using False by auto
qed

lemma no_region_text:
  "\<forall>sel \<in> set response_candidates. select_one sel container = None
   \<Longrightarrow> first_selected_text sep response_candidates container = None"
  by (simp add: response_candidates_def)

text \<open>
  C7, in the form that holds of the code. In a container without a host-response region: when the text of the
  container, its pieces joined by line breaks, has its first \<open>response from\<close> in any
  letter case, then any characters without a colon (line breaks included), a colon,
  whitespace and a body, the response is that body, stripped and limited; whatever the
  pattern captures is stripped and limited. Limiting leaves a body of at most 2000
  characters as it is. A longer body is cut to its first 2000 characters and then to the
  part before the last space among them, so that a space follows the part kept, or is left
  at exactly 2000 characters when there is no space among them; the ellipsis is appended.
\<close>

theorem host_response_from_pattern:
  assumes "\<forall>sel \<in> set response_candidates. select_one sel container = None"
  shows "(\<forall>pre p h w b.
            get_text [CHR 0x0A] container = pre @ p @ h @ '':'' @ w @ b
            \<and> \<not> contains ''response from'' (lower (pre @ take 12 p))
            \<and> lower p = ''response from'' \<and> CHR '':'' \<notin> set h
            \<and> (\<forall>c \<in> set w. is_space c) \<and> b \<noteq> [] \<and> \<not> is_space (hd b)
            \<longrightarrow> extract_host_response container = Some (limit_response (strip b)))
         \<and> (\<forall>g rest.
               re_search response_flags response_pattern (get_text [CHR 0x0A] container)
                 = Some (g, rest)
               \<longrightarrow> extract_host_response container = Some (limit_response (strip g)))
         \<and> (\<forall>body.
               (length body \<le> 2000 \<longrightarrow> limit_response body = body)
               \<and> (length body > 2000 \<longrightarrow>
                    (\<exists>kept. limit_response body = kept @ ellipsis \<and> length kept \<le> 2000
                       \<and> starts_with kept body
                       \<and> (if CHR '' '' \<in> set (take 2000 body)
                            then cut_at_space body kept
                                 \<and> CHR '' '' \<notin> set (drop (Suc (length kept)) (take 2000 body))
                            else kept = take 2000 body))))"
proof (intro conjI allI impI)
  fix pre p h w b
  assume a: "get_text [CHR 0x0A] container = pre @ p @ h @ '':'' @ w @ b
            \<and> \<not> contains ''response from'' (lower (pre @ take 12 p))
            \<and> lower p = ''response from'' \<and> CHR '':'' \<notin> set h
            \<and> (\<forall>c \<in> set w. is_space c) \<and> b \<noteq> [] \<and> \<not> is_space (hd b)"
  then have "re_search response_flags response_pattern (get_text [CHR 0x0A] container)
               = Some (b, [])"
    using response_pattern_search [of pre p h w b] by simp
  then show "extract_host_response container = Some (limit_response (strip b))"
    using no_region_text [OF assms]
    by (simp add: extract_host_response_def response_from_pattern_def)
next
  fix g rest
  assume "re_search response_flags response_pattern (get_text [CHR 0x0A] container) = Some (g, rest)"
  then show "extract_host_response container = Some (limit_response (strip g))"
    using no_region_text [OF assms]
    by (simp add: extract_host_response_def response_from_pattern_def)
next
  fix body :: string
  assume "length body \<le> 2000"
  then show "limit_response body = body" by (rule limit_response_short)
next
  fix body :: string
  assume "length body > 2000"
  then show "\<exists>kept. limit_response body = kept @ ellipsis \<and> length kept \<le> 2000
                       \<and> starts_with kept body
                       \<and> (if CHR '' '' \<in> set (take 2000 body)
                            then cut_at_space body kept
                                 \<and> CHR '' '' \<notin> set (drop (Suc (length kept)) (take 2000 body))
                            else kept = take 2000 body)"
    by (rule limit_response_long)
qed

lemma strip_id: "s \<noteq> [] \<Longrightarrow> \<not> is_space (hd s) \<Longrightarrow> \<not> is_space (last s) \<Longrightarrow> strip s = s"
proof -
  assume a: "s \<noteq> []" "\<not> is_space (hd s)" "\<not> is_space (last s)"
  then have "dropWhile is_space s = s" by (cases s) auto
  moreover have "dropWhile is_space (rev s) = rev s"
    using a by (cases "rev s") (auto simp: hd_rev [symmetric])
  ultimately show ?thesis by (simp add: strip_def)
qed

lemma not_space_a: "\<not> is_space CHR ''a''" "\<not> is_space CHR ''R''"
  by (simp_all add: is_space_def)

lemma long_response_text:
  "get_text [CHR 0x0A] long_response_review
     = [] @ ''Response from'' @ '' Ana'' @ '':'' @ '' '' @ replicate 2001 CHR ''a''"
proof -
  have "strip (''Response from Ana: '' @ replicate 2001 CHR ''a'')
          = ''Response from Ana: '' @ replicate 2001 CHR ''a''"
    by (rule strip_id) (simp_all add: not_space_a)
  then show ?thesis by (simp add: get_text_def long_response_review_def)
qed

lemma long_response_no_region:
  "\<forall>sel \<in> set response_candidates. select_one sel long_response_review = None"
  by (simp add: response_candidates_def select_one_def find_first_def find_all_def
        long_response_review_def)

lemma limit_long_a:
  "limit_response (strip (replicate 2001 CHR ''a'')) = replicate 2000 CHR ''a'' @ ellipsis"
proof -
  have "strip (replicate 2001 CHR ''a'') = replicate 2001 CHR ''a''"
    by (rule strip_id) (simp_all add: not_space_a)
  then show ?thesis by (simp add: limit_response_def rsplit_space_head_def)
qed

text \<open>
  A response of 2001 letters without a space: the pattern captures all of it, and the
  part kept is its first 2000 letters, followed in the body by a letter and not by a
  space.
\<close>

theorem host_response_word_boundary_counterexample:
  "re_search response_flags response_pattern (get_text [CHR 0x0A] long_response_review)
     = Some (replicate 2001 CHR ''a'', [])
   \<and> extract_host_response long_response_review = Some (replicate 2000 CHR ''a'' @ ellipsis)
   \<and> \<not> cut_at_space (replicate 2001 CHR ''a'') (replicate 2000 CHR ''a'')"
proof -
  have "lower ''Response from'' = ''response from''" by code_simp
  moreover have "\<not> contains ''response from'' (lower ([] @ take 12 ''Response from''))"
    by code_simp
  ultimately have m: "re_search response_flags response_pattern
                     (get_text [CHR 0x0A] long_response_review)
                   = Some (replicate 2001 CHR ''a'', [])"
    unfolding long_response_text
    by (intro response_pattern_search) (simp_all add: is_space_def)
  then have "extract_host_response long_response_review
               = Some (limit_response (strip (replicate 2001 CHR ''a'')))"
    using no_region_text [OF long_response_no_region]
    by (simp add: extract_host_response_def response_from_pattern_def)
  then have e: "extract_host_response long_response_review
                  = Some (replicate 2000 CHR ''a'' @ ellipsis)"
    by (simp only: limit_long_a)
  have "\<not> cut_at_space (replicate 2001 CHR ''a'') (replicate 2000 CHR ''a'')"
  proof
    assume "cut_at_space (replicate 2001 CHR ''a'') (replicate 2000 CHR ''a'')"
    then obtain post where "replicate 2001 CHR ''a'' = (replicate 2000 CHR ''a'' @ '' '') @ post"
      unfolding cut_at_space_def starts_with_iff by blast
    then have "CHR '' '' \<in> set (replicate 2001 CHR ''a'')"
      by (metis in_set_conv_decomp append.assoc append_Cons)
    then show False by simp
  qed
  with m e show ?thesis by blast
qed

lemma response_text_review_text:
  "get_text [CHR 0x0A] response_text_review
     = (''Great stay'' @ [CHR 0x0A]) @ ''RESPONSE FROM'' @ '' Ana'' @ '':'' @ [CHR 0x0A] @ ''Thank you!''"
  by code_simp

lemma response_text_review_facts:
  "(\<forall>sel \<in> set response_candidates. select_one sel response_text_review = None)
   \<and> \<not> contains ''response from'' (lower ((''Great stay'' @ [CHR 0x0A]) @ take 12 ''RESPONSE FROM''))
   \<and> lower ''RESPONSE FROM'' = ''response from'' \<and> CHR '':'' \<notin> set '' Ana''
   \<and> (\<forall>c \<in> set [CHR 0x0A]. is_space c) \<and> ''Thank you!'' \<noteq> [] \<and> \<not> is_space (hd ''Thank you!'')"
  by code_simp

lemma limit_thank_you: "limit_response (strip ''Thank you!'') = ''Thank you!''"
  by (simp add: limit_response_def strip_def is_space_def)

theorem host_response_from_pattern_witness:
  "get_text [CHR 0x0A] response_text_review
     = (''Great stay'' @ [CHR 0x0A]) @ ''RESPONSE FROM'' @ '' Ana'' @ '':'' @ [CHR 0x0A] @ ''Thank you!''
   \<and> extract_host_response response_text_review = Some ''Thank you!''"
proof -
  have "extract_host_response response_text_review = Some (limit_response (strip ''Thank you!''))"
    using host_response_from_pattern [of response_text_review]
          response_text_review_facts response_text_review_text
    by blast
  then show ?thesis using response_text_review_text limit_thank_you by simp
qed

section \<open>Rating\<close>

lemma rep_greedy_result:
  "rep_greedy p mn k s = Some x
   \<Longrightarrow> \<exists>s'. k s' = Some x \<and> length s' \<le> length s
            \<and> (0 < mn \<longrightarrow> s \<noteq> [] \<and> p (hd s) \<and> length s' < length s)"
proof (induction s arbitrary: mn)
  case Nil
  then show ?case by (auto split: if_splits)
next
  case (Cons c s)
  show ?case
  proof (cases "p c \<and> rep_greedy p (mn - 1) k s = Some x")
    case True
    then obtain s' where "k s' = Some x" "length s' \<le> length s" using Cons.IH by blast
    with True show ?thesis by (intro exI [of _ s']) auto
  next
    case False
    with Cons.prems have "mn = 0" "k (c # s) = Some x"
      by (auto split: if_splits option.splits)
    then show ?thesis by (intro exI [of _ "c # s"]) auto
  qed
qed

lemma rep_lazy_result:
  "rep_lazy p mn k s = Some x \<Longrightarrow> \<exists>s'. k s' = Some x \<and> length s' \<le> length s"
proof (induction s arbitrary: mn)
  case Nil
  then show ?case by (auto split: if_splits)
next
  case (Cons c s)
  show ?case
  proof (cases "k (c # s) = Some x")
    case True
    then show ?thesis by (intro exI [of _ "c # s"]) auto
  next
    case False
    with Cons.prems have "\<exists>m. rep_lazy p m k s = Some x"
      by (auto split: if_splits option.splits)
    then obtain s' where "k s' = Some x" "length s' \<le> length s" using Cons.IH by blast
    then show ?thesis by (intro exI [of _ s']) auto
  qed
qed

lemma rmatch_plain_cap:
  "\<forall>a \<in> set r. plain_atom a \<Longrightarrow> rmatch f r s gs cap = Some (g, rest) \<Longrightarrow> g = cap"
proof (induction r arbitrary: s)
  case Nil
  then show ?case by simp
next
  case (Cons a r)
  show ?case
  proof (cases a)
    case (Chr c)
    with Cons.prems obtain x xs where "s = x # xs" "rmatch f r xs gs cap = Some (g, rest)"
      by (cases s) (auto split: if_splits)
    then show ?thesis using Cons.IH Cons.prems(1) by auto
  next
    case (Rep c mn greedy)
    with Cons.prems have "\<exists>s'. rmatch f r s' gs cap = Some (g, rest)"
      using rep_greedy_result [of "in_class f c" mn "\<lambda>s'. rmatch f r s' gs cap" s "(g, rest)"]
            rep_lazy_result [of "in_class f c" mn "\<lambda>s'. rmatch f r s' gs cap" s "(g, rest)"]
      by (cases greedy) auto
    then show ?thesis using Cons.IH Cons.prems(1) by auto
  qed (use Cons.prems in auto)
qed

lemma rmatch_close_cap:
  "\<forall>a \<in> set r. plain_atom a \<Longrightarrow> rmatch f (Group_Close # r) s2 s cap = Some (g, rest)
   \<Longrightarrow> g = take (length s - length s2) s"
  using rmatch_plain_cap by simp

lemma number_group_capture:
  assumes pl: "\<forall>a \<in> set r. plain_atom a"
      and m: "rmatch f (number_group @ r) s gs cap = Some (g, rest)"
  shows "g \<noteq> [] \<and> is_digit (hd g)"
proof -
  let ?k = "\<lambda>s'. rmatch f (Opt [Chr (Lit CHR ''.''), Rep Digit 1 True] # Group_Close # r) s' s cap"
  from m have "rep_greedy (in_class f Digit) 1 ?k s = Some (g, rest)"
    by (simp add: number_group_def)
  then obtain s1 where s1: "?k s1 = Some (g, rest)" "s \<noteq> []" "is_digit (hd s)" "length s1 < length s"
    using rep_greedy_result [of "in_class f Digit" 1 ?k s "(g, rest)"] by auto
  have "\<exists>s2. rmatch f (Group_Close # r) s2 s cap = Some (g, rest) \<and> length s2 < length s"
  proof (cases "rmatch f (Group_Close # r) s1 s cap = Some (g, rest)")
    case True
    with s1(4) show ?thesis by blast
  next
    case False
    with s1(1) have "rmatch f (Chr (Lit CHR ''.'') # Rep Digit 1 True # Group_Close # r) s1 s cap
                       = Some (g, rest)"
      by (auto split: option.splits)
    then obtain x xs where x: "s1 = x # xs"
        "rmatch f (Rep Digit 1 True # Group_Close # r) xs s cap = Some (g, rest)"
      by (cases s1) (auto split: if_splits)
    then have "rep_greedy (in_class f Digit) 1 (\<lambda>s'. rmatch f (Group_Close # r) s' s cap) xs
                 = Some (g, rest)"
      by simp
    then obtain s2 where "rmatch f (Group_Close # r) s2 s cap = Some (g, rest)"
        "length s2 \<le> length xs"
      using rep_greedy_result
              [of "in_class f Digit" 1 "\<lambda>s'. rmatch f (Group_Close # r) s' s cap" xs "(g, rest)"]
      by auto
    with x(1) s1(4) show ?thesis by (intro exI [of _ s2]) auto
  qed
  then obtain s2 where s2: "rmatch f (Group_Close # r) s2 s cap = Some (g, rest)"
      "length s2 < length s" by blast
  then have g: "g = take (length s - length s2) s" using rmatch_close_cap [OF pl] by blast
  obtain c cs where c: "s = c # cs" using s1(2) by (cases s) auto
  from s2(2) obtain n where "length s - length s2 = Suc n" by (metis Suc_diff_Suc)
  with g c have "g = c # take n cs" by simp
  with s1(3) c show ?thesis by simp
qed

lemma re_search_rmatch:
  "re_search f pat s = Some m \<Longrightarrow> \<exists>t. rmatch f pat t [] [] = Some m"
  by (induction s) (auto split: option.splits)

lemma plain_tails:
  "\<forall>a \<in> set ([Rep Space 1 True] @ lits ''out'' @ [Rep Space 1 True] @ lits ''of''
                @ [Rep Space 1 True] @ lits ''5''). plain_atom a"
  "\<forall>a \<in> set ([Rep Space 0 True] @ lits ''/'' @ [Rep Space 0 True] @ lits ''5''). plain_atom a"
  by (simp_all add: lits_def)

lemma out_of_5_group:
  "re_search no_flags out_of_5_pattern s = Some (g, rest) \<Longrightarrow> g \<noteq> [] \<and> is_digit (hd g)"
  using re_search_rmatch [of no_flags out_of_5_pattern s "(g, rest)"]
        number_group_capture [OF plain_tails(1)]
  unfolding out_of_5_pattern_def by blast

lemma slash_5_group:
  "re_search no_flags slash_5_pattern s = Some (g, rest) \<Longrightarrow> g \<noteq> [] \<and> is_digit (hd g)"
  using re_search_rmatch [of no_flags slash_5_pattern s "(g, rest)"]
        number_group_capture [OF plain_tails(2)]
  unfolding slash_5_pattern_def by blast

lemma is_digit_not_number_space: "is_digit c \<Longrightarrow> \<not> is_number_space c"
  by (auto simp: is_digit_def is_number_space_def)

lemma number_strip_hd:
  assumes "s \<noteq> []" and "\<not> is_number_space (hd s)"
  shows "number_strip s \<noteq> [] \<and> hd (number_strip s) = hd s"
proof -
  from assms have d: "dropWhile is_number_space s = s" by (cases s) auto
  have "rev s = takeWhile is_number_space (rev s) @ dropWhile is_number_space (rev s)" by simp
  then have "s = rev (dropWhile is_number_space (rev s)) @ rev (takeWhile is_number_space (rev s))"
    by (metis rev_append rev_rev_ident)
  then have sp: "s = number_strip s @ rev (takeWhile is_number_space (rev s))"
    by (simp add: number_strip_def d)
  have all: "\<forall>c \<in> set (rev (takeWhile is_number_space (rev s))). is_number_space c"
    by (auto dest: set_takeWhileD)
  have ne: "number_strip s \<noteq> []"
  proof
    assume "number_strip s = []"
    with sp have "s = rev (takeWhile is_number_space (rev s))" by simp
    with all assms show False by (metis hd_in_set)
  qed
  then have "hd s = hd (number_strip s)" using sp by (metis hd_append2)
  with ne show ?thesis by simp
qed

lemma sign_of_digit: "is_digit c \<Longrightarrow> sign_of (c # cs) = (False, c # cs)"
  by (auto simp: is_digit_def)

lemma lower_char_digit: "is_digit c \<Longrightarrow> lower_char c = c"
  by (auto simp: is_digit_def lower_char_def Let_def)

lemma not_word_digit:
  assumes "is_digit c"
  shows "lower (c # cs) \<noteq> ''inf''" "lower (c # cs) \<noteq> ''infinity''" "lower (c # cs) \<noteq> ''nan''"
  using assms lower_char_digit [OF assms] by (auto simp: lower_def is_digit_def)

lemma scale10_nonneg: "0 \<le> q \<Longrightarrow> 0 \<le> scale10 q e"
  by (simp add: scale10_def)

lemma py_float_digit_nonneg:
  assumes "g \<noteq> []" and "is_digit (hd g)" and "py_float g = Inr x"
  shows "\<exists>q. x = Finite q \<and> 0 \<le> q"
proof -
  from assms(1,2) have "number_strip g \<noteq> [] \<and> hd (number_strip g) = hd g"
    by (intro number_strip_hd) (simp_all add: is_digit_not_number_space)
  then obtain c cs where c: "number_strip g = c # cs" "is_digit c"
    using assms(2) by (cases "number_strip g") auto
  have sg: "sign_of (number_strip g) = (False, c # cs)"
    unfolding c(1) using c(2) by (rule sign_of_digit)
  have pf: "py_float g =
      (case number_part (c # cs) of
         None \<Rightarrow> Inl ValueError
       | Some (ip, fp, r) \<Rightarrow>
           (case exponent_part r of
              None \<Rightarrow> Inl ValueError
            | Some e \<Rightarrow> Inr (Finite (scale10 (of_nat (digits_val (ip @ fp)) / 10 ^ length fp) e))))"
    unfolding py_float_def sg using not_word_digit [OF c(2), of cs]
    by (simp add: Let_def split: option.splits prod.splits)
  from assms(3) obtain ip fp r e where
    x: "x = Finite (scale10 (of_nat (digits_val (ip @ fp)) / 10 ^ length fp) e)"
    unfolding pf by (auto split: option.splits prod.splits)
  have "0 \<le> scale10 (of_nat (digits_val (ip @ fp)) / 10 ^ length fp) e"
    by (intro scale10_nonneg) simp
  with x show ?thesis by blast
qed

lemma rating_from_labels_nonneg:
  "rating_from_labels ls = Some x \<Longrightarrow> \<exists>q. x = Finite q \<and> 0 \<le> q"
proof (induction ls)
  case Nil
  then show ?case by simp
next
  case (Cons l ls)
  show ?case
  proof (cases "re_search no_flags out_of_5_pattern l")
    case None
    with Cons show ?thesis by simp
  next
    case (Some m)
    obtain g rest where m: "m = (g, rest)" by (cases m)
    show ?thesis
    proof (cases "py_float g")
      case (Inl e)
      with Cons Some m show ?thesis by simp
    next
      case (Inr y)
      with Cons.prems Some m have "x = y" by simp
      with Inr out_of_5_group [of l g rest] Some m show ?thesis
        using py_float_digit_nonneg by blast
    qed
  qed
qed

lemma rating_from_text_nonneg:
  assumes "rating_from_text c = Some x"
  shows "\<exists>q. x = Finite q \<and> 0 \<le> q"
proof -
  from assms obtain g rest where
    m: "re_search no_flags slash_5_pattern (get_text '' '' c) = Some (g, rest)"
    and f: "py_float g = Inr x"
    by (auto simp: rating_from_text_def split: option.splits prod.splits sum.splits)
  from slash_5_group [OF m] f show ?thesis using py_float_digit_nonneg by blast
qed

text \<open>
  C3, in the form that holds of the code. A rating that is set is either what \<open>float\<close> gives for the \<open>content\<close>
  of the first element with \<open>itemprop="ratingValue"\<close>, or, from the label and text
  heuristics, the value of an unsigned decimal number, which is at least 0. No heuristic
  bounds it by 5.
\<close>

theorem extract_rating_value:
  assumes "extract_rating container = Some x"
  shows "(\<exists>rating_element v.
            find_first (\<lambda>el. get_attr el ''itemprop'' = Some ''ratingValue'') container
              = Some rating_element
            \<and> get_attr rating_element ''content'' = Some v \<and> py_float v = Inr x)
         \<or> (\<exists>q. x = Finite q \<and> 0 \<le> q)"
proof (cases "rating_from_attribute container")
  case (Some y)
  with assms have "x = y" by (simp add: extract_rating_def)
  with Some show ?thesis
    by (auto simp: rating_from_attribute_def split: option.splits if_splits sum.splits)
next
  case None
  show ?thesis
  proof (cases "rating_from_labels (aria_labels container)")
    case (Some y)
    with None assms have "x = y" by (simp add: extract_rating_def)
    with Some rating_from_labels_nonneg show ?thesis by blast
  next
    case None': None
    with None assms have "rating_from_text container = Some x" by (simp add: extract_rating_def)
    with rating_from_text_nonneg show ?thesis by blast
  qed
qed

text \<open>A rating attribute on a ten-point scale: the rating is 10, outside the range.\<close>

theorem rating_range_counterexample:
  "extract_rating ten_point_review = Some (Finite 10) \<and> \<not> rating_in_range (Finite 10)"
  by code_simp

theorem extract_rating_value_witness:
  "extract_rating labelled_rating_review = Some (Finite (9 / 2)) \<and> (0::rat) \<le> 9 / 2"
proof -
  have e: "extract_rating labelled_rating_review = Some (Finite (9 / 2))" by code_simp
  have n: "find_first (\<lambda>el. get_attr el ''itemprop'' = Some ''ratingValue'') labelled_rating_review
             = None"
    by code_simp
  from extract_rating_value [OF e] n have "\<exists>q. Finite (9 / 2) = Finite q \<and> 0 \<le> q" by simp
  with e show ?thesis by simp
qed

lemma rating_from_labels_first:
  assumes "\<forall>l' \<in> set ls. gives_no_rating out_of_5_pattern l'"
      and "re_search no_flags out_of_5_pattern l = Some (g, rest)" and "py_float g = Inr x"
  shows "rating_from_labels (ls @ l # ls') = Some x"
  using assms
  by (induction ls) (auto simp: gives_no_rating_def split: option.splits sum.splits)

lemma rating_from_labels_none:
  "\<forall>l \<in> set ls. gives_no_rating out_of_5_pattern l \<Longrightarrow> rating_from_labels ls = None"
  by (induction ls) (auto simp: gives_no_rating_def split: option.splits sum.splits)

lemma no_usable_rating_attribute_None:
  "no_usable_rating_attribute container \<Longrightarrow> rating_from_attribute container = None"
  by (auto simp: no_usable_rating_attribute_def rating_from_attribute_def
           split: option.splits sum.splits)

lemma aria_labels_descendants: "aria_labels container = labels_of_descendants container"
proof -
  have "map (\<lambda>el. the (get_attr el ''aria-label''))
          (filter (\<lambda>d. is_tag d \<and> get_attr d ''aria-label'' \<noteq> None) ds)
        = List.map_filter (\<lambda>d. if is_tag d then get_attr d ''aria-label'' else None) ds" for ds
    by (induction ds) (auto simp: List.map_filter_simps)
  then show ?thesis by (simp add: aria_labels_def labels_of_descendants_def find_all_def)
qed

lemma four_and_a_half:
  "re_search no_flags out_of_5_pattern ''4.5 out of 5'' = Some (''4.5'', [])
   \<and> py_float ''4.5'' = Inr (Finite (9 / 2))"
  by code_simp

text \<open>
  C4, in the form that holds of the code. The three heuristics are tried in order and the
  first number wins. A \<open>content\<close> of the rating element that \<open>float\<close> accepts is the
  rating, whatever the labels and the text say. When the attribute gives no rating (it
  is absent, empty or rejected by \<open>float\<close>), the first label of an element below the
  container that matches \<open>number out of 5\<close> gives the rating, whatever the text says;
  with the label \<open>4.5 out of 5\<close> there and no label before it that gives a rating, the
  rating is 4.5. When neither the attribute nor a label gives a rating, the first
  \<open>number/5\<close> of the text gives it. When nothing gives a rating it is unset. The label of
  the container element itself is not looked at.
\<close>

theorem extract_rating_order:
  "(\<forall>rating_element v x.
      find_first (\<lambda>el. get_attr el ''itemprop'' = Some ''ratingValue'') container
        = Some rating_element
      \<and> get_attr rating_element ''content'' = Some v \<and> py_float v = Inr x
      \<longrightarrow> extract_rating container = Some x)
   \<and> (\<forall>ls l ls' g rest x.
         no_usable_rating_attribute container
         \<and> labels_of_descendants container = ls @ l # ls'
         \<and> (\<forall>l' \<in> set ls. gives_no_rating out_of_5_pattern l')
         \<and> re_search no_flags out_of_5_pattern l = Some (g, rest) \<and> py_float g = Inr x
         \<longrightarrow> extract_rating container = Some x)
   \<and> (\<forall>ls ls'.
         no_usable_rating_attribute container
         \<and> labels_of_descendants container = ls @ ''4.5 out of 5'' # ls'
         \<and> (\<forall>l' \<in> set ls. gives_no_rating out_of_5_pattern l')
         \<longrightarrow> extract_rating container = Some (Finite (9 / 2)))
   \<and> (\<forall>g rest x.
         no_usable_rating_attribute container
         \<and> (\<forall>l \<in> set (labels_of_descendants container). gives_no_rating out_of_5_pattern l)
         \<and> re_search no_flags slash_5_pattern (get_text '' '' container) = Some (g, rest)
         \<and> py_float g = Inr x
         \<longrightarrow> extract_rating container = Some x)
   \<and> (no_usable_rating_attribute container
        \<and> (\<forall>l \<in> set (labels_of_descendants container). gives_no_rating out_of_5_pattern l)
        \<and> gives_no_rating slash_5_pattern (get_text '' '' container)
        \<longrightarrow> extract_rating container = None)"
proof (intro conjI allI impI)
  fix rating_element v x
  assume a: "find_first (\<lambda>el. get_attr el ''itemprop'' = Some ''ratingValue'') container
        = Some rating_element
      \<and> get_attr rating_element ''content'' = Some v \<and> py_float v = Inr x"
  have "py_float [] = Inl ValueError" by code_simp
  with a have "v \<noteq> []" by auto
  with a have "rating_from_attribute container = Some x"
    by (simp add: rating_from_attribute_def)
  then show "extract_rating container = Some x" by (simp add: extract_rating_def)
next
  fix ls l ls' g rest x
  assume a: "no_usable_rating_attribute container
         \<and> labels_of_descendants container = ls @ l # ls'
         \<and> (\<forall>l' \<in> set ls. gives_no_rating out_of_5_pattern l')
         \<and> re_search no_flags out_of_5_pattern l = Some (g, rest) \<and> py_float g = Inr x"
  then have "rating_from_labels (aria_labels container) = Some x"
    using rating_from_labels_first [of ls l g rest x ls'] by (simp add: aria_labels_descendants)
  with a show "extract_rating container = Some x"
    by (simp add: extract_rating_def no_usable_rating_attribute_None)
next
  fix ls ls'
  assume a: "no_usable_rating_attribute container
         \<and> labels_of_descendants container = ls @ ''4.5 out of 5'' # ls'
         \<and> (\<forall>l' \<in> set ls. gives_no_rating out_of_5_pattern l')"
  then have "rating_from_labels (aria_labels container) = Some (Finite (9 / 2))"
    using rating_from_labels_first [of ls "''4.5 out of 5''" "''4.5''" "[]" "Finite (9 / 2)" ls']
          four_and_a_half
    by (simp add: aria_labels_descendants)
  with a show "extract_rating container = Some (Finite (9 / 2))"
    by (simp add: extract_rating_def no_usable_rating_attribute_None)
next
  fix g rest x
  assume a: "no_usable_rating_attribute container
         \<and> (\<forall>l \<in> set (labels_of_descendants container). gives_no_rating out_of_5_pattern l)
         \<and> re_search no_flags slash_5_pattern (get_text '' '' container) = Some (g, rest)
         \<and> py_float g = Inr x"
  then have "rating_from_labels (aria_labels container) = None"
    using rating_from_labels_none by (simp add: aria_labels_descendants)
  with a show "extract_rating container = Some x"
    by (simp add: extract_rating_def rating_from_text_def no_usable_rating_attribute_None)
next
  assume a: "no_usable_rating_attribute container
        \<and> (\<forall>l \<in> set (labels_of_descendants container). gives_no_rating out_of_5_pattern l)
        \<and> gives_no_rating slash_5_pattern (get_text '' '' container)"
  then have "rating_from_labels (aria_labels container) = None"
    using rating_from_labels_none by (simp add: aria_labels_descendants)
  moreover from a have "rating_from_text container = None"
    by (auto simp: rating_from_text_def gives_no_rating_def split: option.splits sum.splits)
  ultimately show "extract_rating container = None"
    using a by (simp add: extract_rating_def no_usable_rating_attribute_None)
qed

text \<open>
  A container whose own element carries the label \<open>4.5 out of 5\<close>, with no rating
  attribute anywhere: the label is not found and the rating is unset.
\<close>

theorem label_on_container_counterexample:
  "get_attr label_on_container_review ''aria-label'' = Some ''4.5 out of 5''
   \<and> get_attr label_on_container_review ''itemprop'' = None
   \<and> find_first (\<lambda>el. get_attr el ''itemprop'' = Some ''ratingValue'') label_on_container_review
       = None
   \<and> extract_rating label_on_container_review = None"
  by code_simp

lemma unparsable_attribute_facts:
  "no_usable_rating_attribute unparsable_attribute_review
   \<and> labels_of_descendants unparsable_attribute_review = [''Close''] @ ''4.5 out of 5'' # []
   \<and> (\<forall>l' \<in> set [''Close'']. gives_no_rating out_of_5_pattern l')"
  by code_simp

lemma unparsable_attribute_text:
  "re_search no_flags slash_5_pattern (get_text '' '' unparsable_attribute_review)
     = Some (''3'', '' for the noise'')"
  by code_simp

lemma no_rating_signal:
  "no_usable_rating_attribute (example_review ''2'' ''2024-01-15T10:30:00'')
   \<and> (\<forall>l \<in> set (labels_of_descendants (example_review ''2'' ''2024-01-15T10:30:00'')).
         gives_no_rating out_of_5_pattern l)
   \<and> gives_no_rating slash_5_pattern
        (get_text '' '' (example_review ''2'' ''2024-01-15T10:30:00''))"
  by code_simp

theorem extract_rating_order_witness:
  "extract_rating unparsable_attribute_review = Some (Finite (9 / 2))
   \<and> re_search no_flags slash_5_pattern (get_text '' '' unparsable_attribute_review)
       = Some (''3'', '' for the noise'')
   \<and> extract_rating (example_review ''2'' ''2024-01-15T10:30:00'') = None"
proof -
  have "extract_rating unparsable_attribute_review = Some (Finite (9 / 2))"
    using extract_rating_order [of unparsable_attribute_review] unparsable_attribute_facts
    by blast
  moreover have "extract_rating (example_review ''2'' ''2024-01-15T10:30:00'') = None"
    using extract_rating_order [of "example_review ''2'' ''2024-01-15T10:30:00''"]
          no_rating_signal
    by blast
  ultimately show ?thesis using unparsable_attribute_text by blast
qed

end
